theory Spec2Isabelle
  imports Complex_Main "HOL-Library.Signed_Division"
begin

section \<open>The host: Date arithmetic\<close>

text \<open>
  The scripts read the wall clock with \<^verbatim>\<open>new Date()\<close>, take its local year with
  \<^verbatim>\<open>getFullYear()\<close> and build the year boundaries with \<^verbatim>\<open>new Date(year, 0, 1)\<close>.
  These are the host's functions; they are modelled by the day-number arithmetic of the
  language standard. A time value is an integer number of milliseconds since the epoch.
  A Date that falls outside the representable range is invalid and its time value is NaN,
  written \<open>None\<close>.
\<close>

definition msPerDay :: int where
  "msPerDay = 24 * 60 * 60 * 1000"

definition DayFromYear :: "int \<Rightarrow> int" where
  "DayFromYear y =
     365 * (y - 1970) + (y - 1969) div 4 - (y - 1901) div 100 + (y - 1601) div 400"

definition TimeFromYear :: "int \<Rightarrow> int" where
  "TimeFromYear y = msPerDay * DayFromYear y"

definition Day :: "int \<Rightarrow> int" where
  "Day t = t div msPerDay"

text \<open>
  \<open>YearFromTime t\<close> is the largest year whose first day is not after \<open>t\<close>. It is
  computed by a search upwards from a year that is not after the one wanted.
\<close>

function yearSearch :: "int \<Rightarrow> int \<Rightarrow> int" where
  "yearSearch y d = (if DayFromYear (y + 1) \<le> d then yearSearch (y + 1) d else y)"
  by pat_completeness auto
termination
proof (relation "measure (\<lambda>(y, d). nat (d - DayFromYear y))", goal_cases)
  case 1
  show ?case by simp
next
  case (2 y d)
  have a: "(y - 1969) div 4 \<le> (y + 1 - 1969) div 4"
    by (rule zdiv_mono1) simp_all
  have "(y + 1 - 1901) div 100 \<le> (y - 1901 + 100) div 100"
    by (rule zdiv_mono1) simp_all
  then have b: "(y + 1 - 1901) div 100 \<le> (y - 1901) div 100 + 1"
    by simp
  have c: "(y - 1601) div 400 \<le> (y + 1 - 1601) div 400"
    by (rule zdiv_mono1) simp_all
  have lin: "p \<le> p' \<Longrightarrow> q' \<le> q + 1 \<Longrightarrow> r \<le> r' \<Longrightarrow>
      365 * (y - 1970) + p - q + r < 365 * (y + 1 - 1970) + p' - q' + r'"
    for p p' q q' r r' :: int
    by simp
  from lin [OF a b c] have "DayFromYear y < DayFromYear (y + 1)"
    unfolding DayFromYear_def .
  with 2 show ?case by simp
qed

declare yearSearch.simps [simp del]

definition YearFromTime :: "int \<Rightarrow> int" where
  "YearFromTime t =
     (let d = Day t in yearSearch (1970 + min (d div 365) (d div 366)) d)"

definition maxTimeValue :: int where
  "maxTimeValue = 8640000000000000"

definition TimeClip :: "int \<Rightarrow> int option" where
  "TimeClip t = (if \<bar>t\<bar> > maxTimeValue then None else Some t)"

text \<open>
  The local time zone of the host gives two offsets from UTC, in milliseconds:
  \<open>utcOffset z t\<close> is the offset in force at the time value \<open>t\<close>, by which the host
  turns \<open>t\<close> into local time, and \<open>localOffset z t\<close> is the offset by which the host
  reads the local time \<open>t\<close> when it builds a Date from local fields. Nothing is assumed
  about the two functions, so daylight saving and changes of a zone's standard time are
  covered. \<open>fixedZone tza\<close> is a zone whose offset has always been \<open>tza\<close>, and
  \<open>utc\<close> the zone of offset 0.
\<close>

record zone =
  utcOffset :: "int \<Rightarrow> int"
  localOffset :: "int \<Rightarrow> int"

definition fixedZone :: "int \<Rightarrow> zone" where
  "fixedZone tza = \<lparr> utcOffset = (\<lambda>t. tza), localOffset = (\<lambda>t. tza) \<rparr>"

abbreviation utc :: zone where
  "utc \<equiv> fixedZone 0"

text \<open>
  \<open>istanbul\<close> has the offsets of the zone Europe/Istanbul from 8 November 2015 on:
  two hours until 27 March 2016, 01:00 UTC, and three hours since then (the zone did not
  return to two hours in the autumn of 2016). A local time of the skipped hour is read
  with the offset before the change. Before November 2015 the zone had other offsets,
  which are not modelled.
\<close>

definition istanbul :: zone where
  "istanbul =
     \<lparr> utcOffset = (\<lambda>t. if t < 1459040400000 then 7200000 else 10800000),
       localOffset = (\<lambda>t. if t < 1459051200000 then 7200000 else 10800000) \<rparr>"

definition getFullYear :: "zone \<Rightarrow> int \<Rightarrow> int" where
  \<comment> \<open>\<^verbatim>\<open>now.getFullYear()\<close>: the year of the local time\<close>
  "getFullYear z t = YearFromTime (t + utcOffset z t)"

definition MakeFullYear :: "int \<Rightarrow> int" where
  \<comment> \<open>the Date constructor reads a year argument from 0 to 99 as 1900 + year\<close>
  "MakeFullYear year = (if 0 \<le> year \<and> year \<le> 99 then 1900 + year else year)"

definition newDate :: "zone \<Rightarrow> int \<Rightarrow> int option" where
  \<comment> \<open>\<^verbatim>\<open>new Date(year, 0, 1)\<close>: local midnight of January 1st\<close>
  "newDate z year =
     (let t = TimeFromYear (MakeFullYear year)
      in TimeClip (t - localOffset z t))"

section \<open>Numbers\<close>

text \<open>
  A Number of the script is a double, or NaN. A double is modelled by the real number it
  stands for, NaN by \<open>None\<close>. A division or multiplication of the script yields the
  double nearest to the exact result, a tie going to the even significand: \<open>fl\<close>
  rounds a real to 53 significant bits, with the exponent range of a double (below
  \<open>2\<^sup>-\<^sup>1\<^sup>0\<^sup>2\<^sup>2\<close> the spacing stays that of the smallest binade). Results are
  taken to be below \<open>2\<^sup>1\<^sup>0\<^sup>2\<^sup>4\<close> in size; those of the scripts are below
  \<open>10\<^sup>1\<^sup>7\<close>. Integers below \<open>2\<^sup>5\<^sup>3\<close> in size are doubles, and their sums,
  differences and products within that range are exact: time values, their differences
  and the day counts are integers of the model.
\<close>

fun expUp :: "nat \<Rightarrow> real \<Rightarrow> int" where
  "expUp n x = (if n = 0 \<or> x < 2 then 0 else 1 + expUp (n - 1) (x / 2))"

fun expDown :: "nat \<Rightarrow> real \<Rightarrow> int" where
  "expDown n x = (if n = 0 \<or> 1 \<le> x then 0 else expDown (n - 1) (2 * x) - 1)"

declare expUp.simps [simp del] expDown.simps [simp del]

definition exponent :: "real \<Rightarrow> int" where
  \<comment> \<open>the binary exponent of a positive number, kept within -1022 and 1023\<close>
  "exponent x = (if 1 \<le> x then expUp 1023 x else expDown 1022 x)"

definition ulp :: "real \<Rightarrow> real" where
  \<comment> \<open>the spacing of the doubles in the binade of \<open>x\<close>\<close>
  "ulp x =
     (let e = exponent x in if 52 \<le> e then 2 ^ nat (e - 52) else 1 / 2 ^ nat (52 - e))"

definition roundHalfEven :: "real \<Rightarrow> int" where
  "roundHalfEven x =
     (let n = \<lfloor>x\<rfloor>; r = x - of_int n
      in if r < 1 / 2 then n else if 1 / 2 < r then n + 1 else if even n then n else n + 1)"

definition fl :: "real \<Rightarrow> real" where
  "fl x = sgn x * (ulp \<bar>x\<bar> * of_int (roundHalfEven (\<bar>x\<bar> / ulp \<bar>x\<bar>)))"

definition fdiv :: "real \<Rightarrow> real \<Rightarrow> real" where
  \<comment> \<open>\<^verbatim>\<open>x / y\<close> for a divisor that is not 0\<close>
  "fdiv x y = fl (x / y)"

definition fmul :: "real \<Rightarrow> real \<Rightarrow> real" where
  \<comment> \<open>\<^verbatim>\<open>x * y\<close>\<close>
  "fmul x y = fl (x * y)"

section \<open>Number formatting\<close>

definition digit :: "nat \<Rightarrow> char" where
  "digit n = ''0123456789'' ! n"

fun decimal :: "nat \<Rightarrow> string" where
  "decimal n = (if n < 10 then [digit n] else decimal (n div 10) @ [digit (n mod 10)])"

declare decimal.simps [simp del]

definition roundHalfUp :: "real \<Rightarrow> int" where
  \<comment> \<open>\<^verbatim>\<open>Math.round\<close>: the nearest integer, a tie going up; the result is exact\<close>
  "roundHalfUp x = \<lfloor>x + 1 / 2\<rfloor>"

definition toFixedAbs :: "nat \<Rightarrow> real \<Rightarrow> string" where
  "toFixedAbs f x =
     (let m = decimal (nat (roundHalfUp (x * 10 ^ f)))
      in if f = 0 then m
         else (let m' = (if length m \<le> f then replicate (f + 1 - length m) CHR ''0'' @ m else m);
                   k = length m'
               in take (k - f) m' @ ''.'' @ drop (k - f) m'))"

definition toFixed :: "nat \<Rightarrow> real option \<Rightarrow> string" where
  \<comment> \<open>\<^verbatim>\<open>x.toFixed(f)\<close> for a number below \<open>10\<^sup>2\<^sup>1\<close> in size: the decimal numeral
      with \<open>f\<close> fraction digits nearest to the exact value of the double, a tie going
      up\<close>
  "toFixed f x =
     (case x of
        None \<Rightarrow> ''NaN''
      | Some v \<Rightarrow> if v < 0 then ''-'' @ toFixedAbs f (- v) else toFixedAbs f v)"

section \<open>The progress record\<close>

definition PERCENTAGE_PRECISION :: nat where
  "PERCENTAGE_PRECISION = 6"

record ProgressRecord =
  percentage :: "real option"
  displayPercentage :: string
  daysPassed :: "int option"
  daysRemaining :: "int option"
  totalDaysInYear :: int

definition isLeap :: "int \<Rightarrow> bool" where
  "isLeap year \<longleftrightarrow> (year smod 4 = 0 \<and> year smod 100 \<noteq> 0) \<or> year smod 400 = 0"

text \<open>
  \<open>getYearProgressPrecise z now\<close> is the record the function returns when the host's
  zone is \<open>z\<close> and \<^verbatim>\<open>new Date()\<close> reads the time value \<open>now\<close>. The two day counts
  are floors of double quotients by \<open>msPerDay\<close>. They are modelled by the integer
  quotient, which is the same number as long as the instant and the boundary are less
  than \<open>2\<^sup>2\<^sup>6\<close> days (183000 years) apart (\<open>floor_fdiv_msPerDay\<close> below); in a
  zone whose offsets are less than a day, the boundaries the function builds are at most
  1901 years from the instant.
\<close>

definition getYearProgressPrecise :: "zone \<Rightarrow> int \<Rightarrow> ProgressRecord" where
  "getYearProgressPrecise z now =
     (let year = getFullYear z now;
          startOfYear = newDate z year;
          totalDays = (if isLeap year then 366 else 365);
          totalMsInYear = totalDays * 24 * 60 * 60 * 1000;
          msPassed = map_option (\<lambda>s. now - s) startOfYear;
          pct = map_option (\<lambda>m. min 100 (fmul (fdiv (real_of_int m) (real_of_int totalMsInYear)) 100))
                  msPassed;
          endOfYear = newDate z (year + 1);
          msRemaining = map_option (\<lambda>e. e - now) endOfYear
      in \<lparr> percentage = pct,
           displayPercentage = toFixed PERCENTAGE_PRECISION pct,
           daysPassed = map_option (\<lambda>m. m div msPerDay) msPassed,
           daysRemaining = map_option (\<lambda>m. m div msPerDay) msRemaining,
           totalDaysInYear = totalDays \<rparr>)"

section \<open>The host: timers, animation frames, clipboard\<close>

text \<open>
  A string of the script is a list of code units: the two block glyphs of the clipboard
  bar, and characters.
\<close>

datatype glyph = BLOCK_FILLED | BLOCK_EMPTY | CH char

text \<open>
  The host keeps the wall clock, the visibility of the document, the armed timers and
  the requested animation frames. Timer ids are positive and never reused;
  \<^verbatim>\<open>setTimeout\<close> and \<^verbatim>\<open>setInterval\<close> draw them from one counter and
  \<^verbatim>\<open>clearTimeout\<close> and \<^verbatim>\<open>clearInterval\<close> clear either kind. An armed interval
  is kept with its period, a pending timeout with the time it is due. What a timer runs
  is fixed by the script variant: every interval of a variant runs the same callback, and
  so does every timeout and frame. The timeouts that show and remove the toast and
  restore the tooltip after a copy are presentation: they touch no variable of the
  scripts, and are not kept, so that after a copy the timer ids of the model are lower
  than those of the page.
\<close>

record host =
  localZone :: zone
  clock :: int
  hidden :: bool
  nextTimer :: nat
  intervals :: "(nat \<times> int) list"
  timeouts :: "(nat \<times> int) list"
  nextFrame :: nat
  frames :: "nat list"
  clipboard :: "glyph list option"

definition truthy :: "nat option \<Rightarrow> bool" where
  \<comment> \<open>\<^verbatim>\<open>if (handle)\<close>: \<^verbatim>\<open>null\<close> and 0 are falsy\<close>
  "truthy h = (case h of None \<Rightarrow> False | Some i \<Rightarrow> i \<noteq> 0)"

definition setInterval :: "int \<Rightarrow> 'a host_scheme \<Rightarrow> nat \<times> 'a host_scheme" where
  "setInterval period s =
     (nextTimer s, s\<lparr>intervals := intervals s @ [(nextTimer s, period)],
                      nextTimer := Suc (nextTimer s)\<rparr>)"

definition setTimeout :: "int \<Rightarrow> 'a host_scheme \<Rightarrow> nat \<times> 'a host_scheme" where
  "setTimeout delay s =
     (nextTimer s, s\<lparr>timeouts := timeouts s @ [(nextTimer s, clock s + delay)],
                      nextTimer := Suc (nextTimer s)\<rparr>)"

definition clearTimer :: "nat option \<Rightarrow> 'a host_scheme \<Rightarrow> 'a host_scheme" where
  \<comment> \<open>\<^verbatim>\<open>clearInterval(h)\<close> and \<^verbatim>\<open>clearTimeout(h)\<close>; an unknown id, or \<^verbatim>\<open>null\<close>,
      clears nothing\<close>
  "clearTimer h s =
     (case h of
        None \<Rightarrow> s
      | Some i \<Rightarrow> s\<lparr>intervals := filter (\<lambda>x. fst x \<noteq> i) (intervals s),
                     timeouts := filter (\<lambda>x. fst x \<noteq> i) (timeouts s)\<rparr>)"

definition requestAnimationFrame :: "'a host_scheme \<Rightarrow> nat \<times> 'a host_scheme" where
  "requestAnimationFrame s =
     (nextFrame s, s\<lparr>frames := frames s @ [nextFrame s], nextFrame := Suc (nextFrame s)\<rparr>)"

definition cancelAnimationFrame :: "nat option \<Rightarrow> 'a host_scheme \<Rightarrow> 'a host_scheme" where
  "cancelAnimationFrame h s =
     (case h of None \<Rightarrow> s | Some i \<Rightarrow> s\<lparr>frames := removeAll i (frames s)\<rparr>)"

section \<open>The clipboard text\<close>

definition CLIPBOARD_BLOCKS_TOTAL :: nat where
  "CLIPBOARD_BLOCKS_TOTAL = 15"

datatype jserror = RangeError

definition clipboardText :: "ProgressRecord \<Rightarrow> jserror + glyph list" where
  \<comment> \<open>the text \<^verbatim>\<open>copyToClipboard\<close> builds from a record; \<^verbatim>\<open>String.repeat\<close> throws on
      a negative count and takes NaN as 0\<close>
  "clipboardText progress =
     (case percentage progress of
        None \<Rightarrow> Inr (map CH ('' '' @ toFixed 0 None @ ''%''))
      | Some percentageValue \<Rightarrow>
          (let numFilled = roundHalfUp (fdiv percentageValue (fdiv 100 (real CLIPBOARD_BLOCKS_TOTAL)));
               numEmpty = int CLIPBOARD_BLOCKS_TOTAL - numFilled
           in if numFilled < 0 \<or> numEmpty < 0 then Inl RangeError
              else Inr (replicate (nat numFilled) BLOCK_FILLED
                        @ replicate (nat numEmpty) BLOCK_EMPTY
                        @ map CH ('' '' @ toFixed 0 (Some percentageValue) @ ''%''))))"

section \<open>The script with a stored record and a debounced interval\<close>

definition UPDATE_INTERVAL :: int where
  "UPDATE_INTERVAL = 500"

definition DEBOUNCE_DELAY :: int where
  "DEBOUNCE_DELAY = 200"

text \<open>
  The script's variables, and what it has put on the page: \<open>rendered\<close> lists the records
  \<^verbatim>\<open>updateUI\<close> has displayed, the latest first (the elements of the page exist, so
  the writes succeed; texts, colours and themes are outside the model). \<open>currentProgressData\<close> is \<open>None\<close> for
  the initial \<^verbatim>\<open>{}\<close>, which has no percentage. The listener fields say which handlers
  are attached; the colour and theme handlers do not touch the progress state and are
  left out. \<open>loaded\<close> says that \<^verbatim>\<open>DOMContentLoaded\<close> has fired (the host fires it
  once); \<open>exporting\<close> holds while an export awaits its image (the button is disabled).
\<close>

record page = host +
  currentLang :: string
  updateTimer :: "nat option"
  currentProgressData :: "ProgressRecord option"
  debounceTimeout :: "nat option"
  rendered :: "ProgressRecord list"
  loaded :: bool
  visibilityListener :: bool
  copyListener :: bool
  exportListener :: bool
  languageListener :: bool
  unloadListener :: bool
  exporting :: bool
  downloads :: nat
  alerts :: nat

definition initial :: "zone \<Rightarrow> int \<Rightarrow> bool \<Rightarrow> page" where
  \<comment> \<open>the page when the script has been evaluated: the visibility listener is attached
      at the top level, the other listeners wait for \<^verbatim>\<open>DOMContentLoaded\<close>\<close>
  "initial z t h =
     \<lparr> localZone = z, clock = t, hidden = h, nextTimer = 1, intervals = [], timeouts = [],
       nextFrame = 1, frames = [], clipboard = None,
       currentLang = ''zh-CN'', updateTimer = None, currentProgressData = None,
       debounceTimeout = None, rendered = [], loaded = False, visibilityListener = True,
       copyListener = False, exportListener = False, languageListener = False,
       unloadListener = False, exporting = False, downloads = 0, alerts = 0 \<rparr>"

definition updateUI :: "page \<Rightarrow> page" where
  "updateUI s =
     (let progress = getYearProgressPrecise (localZone s) (clock s)
      in s\<lparr>currentProgressData := Some progress, rendered := progress # rendered s\<rparr>)"

text \<open>
  \<^verbatim>\<open>translations[lang]\<close> is truthy for the two languages of the table and for the
  property names every object inherits.
\<close>

definition inheritedKeys :: "string list" where
  "inheritedKeys =
     [''constructor'', ''__proto__'', ''hasOwnProperty'', ''isPrototypeOf'',
      ''propertyIsEnumerable'', ''toLocaleString'', ''toString'', ''valueOf'',
      ''__defineGetter__'', ''__defineSetter__'', ''__lookupGetter__'', ''__lookupSetter__'']"

definition hasTranslation :: "string \<Rightarrow> bool" where
  "hasTranslation lang \<longleftrightarrow> lang = ''zh-CN'' \<or> lang = ''en'' \<or> lang \<in> set inheritedKeys"

definition setLanguage :: "string \<Rightarrow> page \<Rightarrow> page" where
  "setLanguage lang s =
     updateUI (s\<lparr>currentLang := (if hasTranslation lang then lang else ''zh-CN'')\<rparr>)"

definition debouncedUpdateUI :: "page \<Rightarrow> page" where
  "debouncedUpdateUI s =
     (let s1 = (if truthy (debounceTimeout s) then clearTimer (debounceTimeout s) s else s);
          (h, s2) = setTimeout DEBOUNCE_DELAY s1
      in s2\<lparr>debounceTimeout := Some h\<rparr>)"

definition copyToClipboard :: "bool \<Rightarrow> page \<Rightarrow> page" where
  \<comment> \<open>\<open>written\<close>: whether the host's \<^verbatim>\<open>writeText\<close> succeeds\<close>
  "copyToClipboard written s =
     (case currentProgressData s of
        None \<Rightarrow> s
      | Some progress \<Rightarrow>
          (case clipboardText progress of
             Inl e \<Rightarrow> s
           | Inr text \<Rightarrow> if written then s\<lparr>clipboard := Some text\<rparr> else s))"

definition handleVisibilityChange :: "page \<Rightarrow> page" where
  "handleVisibilityChange s =
     (if hidden s then
        (let s1 = (if truthy (updateTimer s)
                   then (clearTimer (updateTimer s) s)\<lparr>updateTimer := None\<rparr> else s);
             s2 = (if truthy (debounceTimeout s1)
                   then (clearTimer (debounceTimeout s1) s1)\<lparr>debounceTimeout := None\<rparr> else s1)
         in s2)
      else if \<not> truthy (updateTimer s) then
        (let (h, s1) = setInterval UPDATE_INTERVAL (updateUI s) in s1\<lparr>updateTimer := Some h\<rparr>)
      else s)"

definition cleanup :: "page \<Rightarrow> page" where
  "cleanup s =
     (let s1 = (if truthy (updateTimer s)
                then (clearTimer (updateTimer s) s)\<lparr>updateTimer := None\<rparr> else s);
          s2 = (if truthy (debounceTimeout s1)
                then (clearTimer (debounceTimeout s1) s1)\<lparr>debounceTimeout := None\<rparr> else s1)
      in s2\<lparr>visibilityListener := False, copyListener := False, exportListener := False,
             languageListener := False, unloadListener := False\<rparr>)"

text \<open>
  The export handler. It stops the interval, tries the capture and, on every exit path,
  runs its \<^verbatim>\<open>finally\<close> block. The capture is awaited, so other events can run between
  \<open>exportBegin\<close> and the rest; \<open>exportHandler\<close> is the handler run with nothing in
  between.
\<close>

datatype exportOutcome = Success | RenderFailure | ThrownBeforeCapture

definition exportBegin :: "page \<Rightarrow> page" where
  "exportBegin s =
     (let s1 = (if truthy (updateTimer s) then clearTimer (updateTimer s) s else s)
      in s1\<lparr>exporting := True\<rparr>)"

definition exportFinally :: "page \<Rightarrow> page" where
  "exportFinally s =
     (let s1 = s\<lparr>exporting := False\<rparr>
      in if \<not> hidden s1 \<and> \<not> truthy (updateTimer s1)
         then (let (h, s2) = setInterval UPDATE_INTERVAL s1 in s2\<lparr>updateTimer := Some h\<rparr>)
         else s1)"

definition exportSettle :: "exportOutcome \<Rightarrow> page \<Rightarrow> page" where
  "exportSettle outcome s =
     exportFinally (case outcome of
                      Success \<Rightarrow> s\<lparr>downloads := Suc (downloads s)\<rparr>
                    | RenderFailure \<Rightarrow> s\<lparr>alerts := Suc (alerts s)\<rparr>
                    | ThrownBeforeCapture \<Rightarrow> s\<lparr>alerts := Suc (alerts s)\<rparr>)"

definition exportHandler :: "exportOutcome \<Rightarrow> page \<Rightarrow> page" where
  "exportHandler outcome s = exportSettle outcome (exportBegin s)"

definition initialLang :: "string option \<Rightarrow> string \<Rightarrow> string" where
  "initialLang savedLang browserLang =
     (case savedLang of
        Some l \<Rightarrow> if l \<noteq> [] \<and> hasTranslation l then l
                  else if take 2 browserLang = ''en'' then ''en'' else ''zh-CN''
      | None \<Rightarrow> if take 2 browserLang = ''en'' then ''en'' else ''zh-CN'')"

definition domContentLoaded :: "string option \<Rightarrow> string \<Rightarrow> page \<Rightarrow> page" where
  "domContentLoaded savedLang browserLang s =
     (let s1 = setLanguage (initialLang savedLang browserLang) s;
          s2 = (if \<not> hidden s1
                then (let (h, s') = setInterval UPDATE_INTERVAL (updateUI s1) in s'\<lparr>updateTimer := Some h\<rparr>)
                else s1)
      in s2\<lparr>loaded := True, copyListener := True, exportListener := True,
             languageListener := True, unloadListener := True\<rparr>)"

text \<open>
  Time passes by \<open>advance\<close>: every pending timeout that is due by the new time fires,
  in the order of the due times, each at its due time. A timeout of this script runs
  \<^verbatim>\<open>updateUI\<close>, which arms no timer, so one pass over the due timeouts is the whole
  firing. An interval fires when the host says so (\<open>intervalFire\<close>); it runs
  \<^verbatim>\<open>debouncedUpdateUI\<close>.
\<close>

definition fireTimeout :: "nat \<times> int \<Rightarrow> page \<Rightarrow> page" where
  "fireTimeout x s =
     updateUI (s\<lparr>clock := max (clock s) (snd x),
                 timeouts := filter (\<lambda>y. fst y \<noteq> fst x) (timeouts s)\<rparr>)"

definition advance :: "int \<Rightarrow> page \<Rightarrow> page" where
  "advance t s =
     (let due = sort_key snd (filter (\<lambda>x. snd x \<le> t) (timeouts s));
          s1 = fold fireTimeout due s
      in s1\<lparr>clock := max (clock s1) t\<rparr>)"

definition intervalFire :: "nat \<Rightarrow> page \<Rightarrow> page" where
  "intervalFire h s = (if h \<in> fst ` set (intervals s) then debouncedUpdateUI s else s)"

datatype event =
    DOMContentLoaded "string option" string
  | VisibilityChange bool
  | Advance int
  | IntervalFire nat
  | CopyClick bool
  | ExportClick bool
  | ExportSettled bool
  | LanguageClick
  | BeforeUnload

fun step :: "page \<Rightarrow> event \<Rightarrow> page" where
  "step s (DOMContentLoaded savedLang browserLang) =
     (if loaded s then s else domContentLoaded savedLang browserLang s)"
| "step s (VisibilityChange h) =
     (if visibilityListener s then handleVisibilityChange (s\<lparr>hidden := h\<rparr>)
      else s\<lparr>hidden := h\<rparr>)"
| "step s (Advance t) = advance t s"
| "step s (IntervalFire h) = intervalFire h s"
| "step s (CopyClick written) = (if copyListener s then copyToClipboard written s else s)"
| "step s (ExportClick ready) =
     (if exportListener s \<and> \<not> exporting s
      then (if ready then exportBegin s else exportHandler ThrownBeforeCapture s)
      else s)"
| "step s (ExportSettled ok) =
     (if exporting s then exportSettle (if ok then Success else RenderFailure) s else s)"
| "step s LanguageClick =
     (if languageListener s
      then setLanguage (if currentLang s = ''zh-CN'' then ''en'' else ''zh-CN'') s else s)"
| "step s BeforeUnload = (if unloadListener s then cleanup s else s)"

definition run :: "page \<Rightarrow> event list \<Rightarrow> page" where
  "run s es = foldl step s es"

section \<open>The script with an animation loop and no stored record\<close>

text \<open>
  The second variant of the script keeps no record: an animation frame loop computes the
  progress for the bar and the live percentage, an interval of one second computes it
  again for the day counters, and \<^verbatim>\<open>copyToClipboard\<close> computes it once more.
  \<open>liveShown\<close> and \<open>staticShown\<close> are the records last put on the page by
  \<^verbatim>\<open>updateLiveElements\<close> and \<^verbatim>\<open>updateStaticElements\<close>. The functions that share
  a name with the first variant carry the suffix \<open>_raf\<close>.
\<close>

definition STATIC_UPDATE_INTERVAL :: int where
  "STATIC_UPDATE_INTERVAL = 1000"

record rafPage = host +
  animationFrameId :: "nat option"
  staticTimerId :: "nat option"
  liveShown :: "ProgressRecord option"
  staticShown :: "ProgressRecord option"

definition initial_raf :: "zone \<Rightarrow> int \<Rightarrow> bool \<Rightarrow> rafPage" where
  "initial_raf z t h =
     \<lparr> localZone = z, clock = t, hidden = h, nextTimer = 1, intervals = [], timeouts = [],
       nextFrame = 1, frames = [], clipboard = None,
       animationFrameId = None, staticTimerId = None, liveShown = None, staticShown = None \<rparr>"

definition updateLiveElements :: "ProgressRecord \<Rightarrow> rafPage \<Rightarrow> rafPage" where
  "updateLiveElements progress s = s\<lparr>liveShown := Some progress\<rparr>"

definition updateStaticElements :: "rafPage \<Rightarrow> rafPage" where
  "updateStaticElements s =
     (let progress = getYearProgressPrecise (localZone s) (clock s)
      in s\<lparr>staticShown := Some progress\<rparr>)"

definition animationLoop :: "rafPage \<Rightarrow> rafPage" where
  "animationLoop s =
     (let progress = getYearProgressPrecise (localZone s) (clock s);
          s1 = updateLiveElements progress s;
          (f, s2) = requestAnimationFrame s1
      in s2\<lparr>animationFrameId := Some f\<rparr>)"

definition frameFire :: "nat \<Rightarrow> rafPage \<Rightarrow> rafPage" where
  \<comment> \<open>the host runs the callback of a requested frame\<close>
  "frameFire f s =
     (if f \<in> set (frames s) then animationLoop (s\<lparr>frames := removeAll f (frames s)\<rparr>) else s)"

definition copyToClipboard_raf :: "bool \<Rightarrow> rafPage \<Rightarrow> rafPage" where
  "copyToClipboard_raf written s =
     (let progress = getYearProgressPrecise (localZone s) (clock s)
      in case clipboardText progress of
           Inl e \<Rightarrow> s
         | Inr text \<Rightarrow> if written then s\<lparr>clipboard := Some text\<rparr> else s)"

definition handleVisibilityChange_raf :: "rafPage \<Rightarrow> rafPage" where
  "handleVisibilityChange_raf s =
     (if hidden s then clearTimer (staticTimerId s) (cancelAnimationFrame (animationFrameId s) s)
      else
        (let (f, s1) = requestAnimationFrame s;
             s2 = updateStaticElements (s1\<lparr>animationFrameId := Some f\<rparr>);
             (h, s3) = setInterval STATIC_UPDATE_INTERVAL s2
         in s3\<lparr>staticTimerId := Some h\<rparr>))"

definition exportBegin_raf :: "rafPage \<Rightarrow> rafPage" where
  "exportBegin_raf s = clearTimer (staticTimerId s) (cancelAnimationFrame (animationFrameId s) s)"

definition exportFinally_raf :: "rafPage \<Rightarrow> rafPage" where
  "exportFinally_raf s =
     (if \<not> hidden s then
        (let (f, s1) = requestAnimationFrame s;
             (h, s2) = setInterval STATIC_UPDATE_INTERVAL (s1\<lparr>animationFrameId := Some f\<rparr>)
         in s2\<lparr>staticTimerId := Some h\<rparr>)
      else s)"

definition domContentLoaded_raf :: "rafPage \<Rightarrow> rafPage" where
  \<comment> \<open>the last statement arms the timeout of the page load animation\<close>
  "domContentLoaded_raf s =
     (let s0 = updateStaticElements s;
          s4 = (if \<not> hidden s0 then
                  (let (f, s1) = requestAnimationFrame s0;
                       s2 = updateStaticElements (s1\<lparr>animationFrameId := Some f\<rparr>);
                       (h, s3) = setInterval STATIC_UPDATE_INTERVAL s2
                   in s3\<lparr>staticTimerId := Some h\<rparr>)
                else s0)
      in snd (setTimeout 50 s4))"

section \<open>Notions used in the statements\<close>

text \<open>
  \<open>recordStored\<close> is the invariant behind the copy handler's guard. A trigger is one
  call of \<^verbatim>\<open>debouncedUpdateUI\<close> at a given time, a burst a sequence of them.
\<close>

definition recordStored :: "page \<Rightarrow> bool" where
  "recordStored s \<longleftrightarrow> (copyListener s \<longrightarrow> currentProgressData s \<noteq> None)"

definition trigger :: "int \<Rightarrow> page \<Rightarrow> page" where
  \<comment> \<open>a trigger of the debounced path arriving at time \<open>t\<close>\<close>
  "trigger t s = debouncedUpdateUI (advance t s)"

definition burst :: "int list \<Rightarrow> page \<Rightarrow> page" where
  "burst ts s = fold trigger ts s"

definition quiet :: "page \<Rightarrow> int \<Rightarrow> bool" where
  \<comment> \<open>no deferred update is pending, or the one that is pending belongs to the debounce
      variable and is due after \<open>t\<close>\<close>
  "quiet s t \<longleftrightarrow>
     nextTimer s \<noteq> 0 \<and>
     (timeouts s = [] \<or>
      (\<exists>h d. timeouts s = [(h, d)] \<and> debounceTimeout s = Some h \<and> h \<noteq> 0 \<and> t < d))"

section \<open>Properties of the Date arithmetic\<close>

lemma div_succ:
  fixes x n :: int
  assumes "0 < n"
  shows "(x + 1) div n = (if (x + 1) mod n = 0 then x div n + 1 else x div n)"
proof -
  define q r where "q = x div n" and "r = x mod n"
  have x: "x = n * q + r"
    by (simp add: q_def r_def)
  have r: "0 \<le> r" "r < n"
    using assms by (simp_all add: r_def)
  show ?thesis
  proof (cases "r + 1 = n")
    case True
    then have "x + 1 = n * (q + 1) + 0"
      using x by (simp add: algebra_simps)
    then have "(x + 1) div n = q + 1" "(x + 1) mod n = 0"
      using assms by (auto intro: int_div_pos_eq int_mod_pos_eq)
    then show ?thesis
      by (simp add: q_def)
  next
    case False
    then have "0 \<le> r + 1" "r + 1 < n"
      using r by simp_all
    moreover have "x + 1 = n * q + (r + 1)"
      using x by simp
    ultimately have "(x + 1) div n = q" "(x + 1) mod n = r + 1"
      by (auto intro: int_div_pos_eq int_mod_pos_eq)
    then show ?thesis
      using r by (simp add: q_def)
  qed
qed

lemma smod_eq_0_iff: "a smod b = 0 \<longleftrightarrow> b dvd a" for a b :: int
  by (auto simp: smod_int_alt_def sgn_if abs_if dvd_eq_mod_eq_0 [symmetric])

lemma isLeap_iff: "isLeap y \<longleftrightarrow> (4 dvd y \<and> \<not> 100 dvd y) \<or> 400 dvd y"
  by (simp add: isLeap_def smod_eq_0_iff)

lemma shift_mod: "(y - k * n) mod n = y mod n" for y k n :: int
proof -
  have "(y - k * n) mod n = (y + (- k) * n) mod n" by simp
  also have "\<dots> = y mod n" by (simp only: mod_mult_self1)
  finally show ?thesis .
qed

lemma div_at_multiple:
  fixes y n k :: int
  assumes "0 < n"
  shows "(y - k * n) div n = (y - k * n - 1) div n + (if n dvd y then 1 else 0)"
proof -
  have "(y - k * n) div n =
      (if (y - k * n) mod n = 0 then (y - k * n - 1) div n + 1 else (y - k * n - 1) div n)"
    using div_succ [OF assms, of "y - k * n - 1"] by simp
  then show ?thesis
    by (simp add: shift_mod dvd_eq_mod_eq_0)
qed

lemma DayFromYear_Suc:
  "DayFromYear (y + 1) = DayFromYear y + (if isLeap y then 366 else 365)"
proof -
  define p q r where "p = (y - 1969) div 4" and "q = (y - 1901) div 100"
    and "r = (y - 1601) div 400"
  have a: "(y - 1968) div 4 = p + (if 4 dvd y then 1 else 0)"
    using div_at_multiple [of 4 y 492] by (simp add: p_def)
  have b: "(y - 1900) div 100 = q + (if 100 dvd y then 1 else 0)"
    using div_at_multiple [of 100 y 19] by (simp add: q_def)
  have c: "(y - 1600) div 400 = r + (if 400 dvd y then 1 else 0)"
    using div_at_multiple [of 400 y 4] by (simp add: r_def)
  have d: "400 dvd y \<Longrightarrow> 100 dvd y" "100 dvd y \<Longrightarrow> 4 dvd y"
    by (auto elim: dvd_trans [rotated])
  have "DayFromYear (y + 1) =
      365 * (y - 1969) + (y - 1968) div 4 - (y - 1900) div 100 + (y - 1600) div 400"
    by (simp add: DayFromYear_def)
  also have "\<dots> = 365 * (y - 1969) + (p + (if 4 dvd y then 1 else 0))
      - (q + (if 100 dvd y then 1 else 0)) + (r + (if 400 dvd y then 1 else 0))"
    by (simp only: a b c)
  finally have e: "DayFromYear (y + 1) = 365 * (y - 1969) + (p + (if 4 dvd y then 1 else 0))
      - (q + (if 100 dvd y then 1 else 0)) + (r + (if 400 dvd y then 1 else 0))" .
  have f: "DayFromYear y = 365 * (y - 1970) + p - q + r"
    by (simp add: DayFromYear_def p_def q_def r_def)
  show ?thesis
    unfolding e f isLeap_iff using d by auto
qed


lemma DayFromYear_step_bounds:
  "DayFromYear y + 365 \<le> DayFromYear (y + 1)" "DayFromYear (y + 1) \<le> DayFromYear y + 366"
  by (simp_all add: DayFromYear_Suc)

lemma DayFromYear_add_bounds:
  assumes "0 \<le> k"
  shows "DayFromYear y + 365 * k \<le> DayFromYear (y + k) \<and> DayFromYear (y + k) \<le> DayFromYear y + 366 * k"
  using assms
proof (induction k rule: int_ge_induct)
  case base
  show ?case by simp
next
  case (step i)
  have "DayFromYear (y + (i + 1)) = DayFromYear (y + i + 1)"
    by (simp add: add.assoc)
  with DayFromYear_step_bounds [of "y + i"] step.IH show ?case
    by (simp add: algebra_simps)
qed

lemma DayFromYear_strict_mono:
  assumes "y < y'"
  shows "DayFromYear y < DayFromYear y'"
proof -
  have "DayFromYear y + 365 * (y' - y) \<le> DayFromYear (y + (y' - y))"
    using DayFromYear_add_bounds [of "y' - y" y] assms by simp
  with assms show ?thesis
    by simp
qed

lemma DayFromYear_1970: "DayFromYear 1970 = 0"
  by (simp add: DayFromYear_def)

lemma yearSearch_spec:
  "DayFromYear y \<le> d \<Longrightarrow>
     DayFromYear (yearSearch y d) \<le> d \<and> d < DayFromYear (yearSearch y d + 1)"
proof (induction y d rule: yearSearch.induct)
  case (1 y d)
  show ?case
  proof (cases "DayFromYear (y + 1) \<le> d")
    case True
    with "1.IH" show ?thesis
      by (subst (1 2) yearSearch.simps) simp
  next
    case False
    with "1.prems" show ?thesis
      by (subst (1 2) yearSearch.simps) simp
  qed
qed

lemma int_div_bounds:
  fixes a n :: int
  assumes "0 < n"
  shows "n * (a div n) \<le> a" and "a < n * (a div n) + n"
proof -
  have "n * (a div n) + a mod n = a"
    by (rule mult_div_mod_eq)
  moreover have "0 \<le> a mod n" "a mod n < n"
    using assms by simp_all
  ultimately show "n * (a div n) \<le> a" and "a < n * (a div n) + n"
    by linarith+
qed

lemma start_year_ok: "DayFromYear (1970 + min (d div 365) (d div 366)) \<le> d"
proof -
  define k where "k = min (d div 365) (d div 366)"
  have k1: "365 * k \<le> d"
  proof -
    have "365 * k \<le> 365 * (d div 365)" by (simp add: k_def)
    also have "\<dots> \<le> d" by (rule int_div_bounds) simp
    finally show ?thesis .
  qed
  have k2: "366 * k \<le> d"
  proof -
    have "366 * k \<le> 366 * (d div 366)" by (simp add: k_def)
    also have "\<dots> \<le> d" by (rule int_div_bounds) simp
    finally show ?thesis .
  qed
  show ?thesis
  proof (cases "0 \<le> k")
    case True
    from DayFromYear_add_bounds [OF True, of 1970]
    have "DayFromYear (1970 + k) \<le> 366 * k"
      by (simp add: DayFromYear_1970)
    with k2 show ?thesis
      unfolding k_def [symmetric] by linarith
  next
    case False
    then have "0 \<le> - k" by simp
    from DayFromYear_add_bounds [OF this, of "1970 + k"]
    have "DayFromYear (1970 + k) \<le> 365 * k"
      by (simp add: DayFromYear_1970)
    with k1 show ?thesis
      unfolding k_def [symmetric] by linarith
  qed
qed

lemma msPerDay_pos: "0 < msPerDay"
  by (simp add: msPerDay_def)

lemma YearFromTime_spec:
  "TimeFromYear (YearFromTime t) \<le> t \<and> t < TimeFromYear (YearFromTime t + 1)"
proof -
  let ?d = "Day t"
  let ?y = "YearFromTime t"
  have y: "?y = yearSearch (1970 + min (?d div 365) (?d div 366)) ?d"
    by (simp add: YearFromTime_def Let_def)
  from yearSearch_spec [OF start_year_ok [of ?d]]
  have lo: "DayFromYear ?y \<le> ?d" and hi: "?d < DayFromYear (?y + 1)"
    by (simp_all only: y [symmetric])
  have "msPerDay * DayFromYear ?y \<le> msPerDay * ?d"
    using lo msPerDay_pos by simp
  also have "\<dots> \<le> t"
    unfolding Day_def using msPerDay_pos by (rule int_div_bounds)
  finally have 1: "TimeFromYear ?y \<le> t"
    by (simp add: TimeFromYear_def)
  have "?d + 1 \<le> DayFromYear (?y + 1)"
    using hi by simp
  then have "msPerDay * (?d + 1) \<le> msPerDay * DayFromYear (?y + 1)"
    using msPerDay_pos by simp
  moreover have "t < msPerDay * (?d + 1)"
    unfolding Day_def using int_div_bounds(2) [OF msPerDay_pos, of t]
    by (simp add: algebra_simps)
  ultimately have 2: "t < TimeFromYear (?y + 1)"
    by (simp add: TimeFromYear_def)
  from 1 2 show ?thesis ..
qed

lemma TimeFromYear_strict_mono: "y < y' \<Longrightarrow> TimeFromYear y < TimeFromYear y'"
  using DayFromYear_strict_mono [of y y'] msPerDay_pos by (simp add: TimeFromYear_def)

lemma YearFromTime_unique:
  assumes "TimeFromYear y \<le> t" and "t < TimeFromYear (y + 1)"
  shows "YearFromTime t = y"
proof (rule ccontr)
  let ?z = "YearFromTime t"
  assume "?z \<noteq> y"
  then consider "?z + 1 \<le> y" | "y + 1 \<le> ?z"
    by linarith
  then show False
  proof cases
    case 1
    then have "TimeFromYear (?z + 1) \<le> TimeFromYear y"
      using TimeFromYear_strict_mono [of "?z + 1" y] by (cases "?z + 1 = y") simp_all
    with assms(1) YearFromTime_spec [of t] show False
      by linarith
  next
    case 2
    then have "TimeFromYear (y + 1) \<le> TimeFromYear ?z"
      using TimeFromYear_strict_mono [of "y + 1" ?z] by (cases "y + 1 = ?z") simp_all
    with assms(2) YearFromTime_spec [of t] show False
      by linarith
  qed
qed

lemma TimeFromYear_Suc:
  "TimeFromYear (y + 1) = TimeFromYear y + (if isLeap y then 366 else 365) * msPerDay"
  unfolding TimeFromYear_def DayFromYear_Suc by (simp add: algebra_simps)

section \<open>Properties of the numbers\<close>

lemmas fl_eval =
  fdiv_def fmul_def fl_def ulp_def exponent_def expUp.simps expDown.simps roundHalfEven_def
  Let_def

lemma ulp_pos: "0 < ulp x"
  by (simp add: ulp_def Let_def)

lemma roundHalfEven_bounds:
  "x - 1 / 2 \<le> real_of_int (roundHalfEven x)" "real_of_int (roundHalfEven x) \<le> x + 1 / 2"
  unfolding roundHalfEven_def Let_def by (auto; linarith)+

lemma roundHalfEven_nonneg: "0 \<le> x \<Longrightarrow> 0 \<le> roundHalfEven x"
  unfolding roundHalfEven_def Let_def by (auto; linarith)

lemma fl_nonneg: "0 \<le> x \<Longrightarrow> 0 \<le> fl x"
  using ulp_pos [of "\<bar>x\<bar>"] roundHalfEven_nonneg [of "\<bar>x\<bar> / ulp \<bar>x\<bar>"]
  by (simp add: fl_def sgn_if)

lemma fl_upper:
  assumes "0 \<le> x"
  shows "fl x \<le> x + ulp x / 2"
proof (cases "x = 0")
  case True
  then show ?thesis
    using ulp_pos [of 0] by (simp add: fl_def)
next
  case False
  with assms have x: "0 < x"
    by simp
  have "real_of_int (roundHalfEven (x / ulp x)) \<le> x / ulp x + 1 / 2"
    by (rule roundHalfEven_bounds)
  then have "ulp x * real_of_int (roundHalfEven (x / ulp x)) \<le> ulp x * (x / ulp x + 1 / 2)"
    using ulp_pos [of x] by (simp only: mult_le_cancel_left_pos)
  also have "\<dots> = x + ulp x / 2"
    using ulp_pos [of x] by (simp add: algebra_simps)
  finally show ?thesis
    using x by (simp add: fl_def)
qed

lemma expUp_le: "x < 2 ^ Suc k \<Longrightarrow> expUp n x \<le> int k"
proof (induction n arbitrary: x k)
  case 0
  show ?case by (simp add: expUp.simps)
next
  case (Suc n)
  show ?case
  proof (cases "x < 2")
    case True
    then show ?thesis by (simp add: expUp.simps)
  next
    case False
    with Suc.prems obtain j where k: "k = Suc j"
      by (cases k) simp_all
    from Suc.prems have "x / 2 < 2 ^ Suc j"
      by (simp add: k)
    from Suc.IH [OF this] False show ?thesis
      by (subst expUp.simps) (simp add: k)
  qed
qed

lemma expDown_le: "expDown n x \<le> 0"
proof (induction n arbitrary: x)
  case 0
  show ?case by (simp add: expDown.simps)
next
  case (Suc n)
  from Suc [of "2 * x"] show ?case
    by (subst expDown.simps) simp
qed

lemma exponent_le: "x < 2 ^ Suc k \<Longrightarrow> exponent x \<le> int k"
  using expUp_le [of x k 1023] expDown_le [of 1022 x] by (simp add: exponent_def)

lemma ulp_le:
  assumes "x < 16"
  shows "ulp x \<le> 1 / 2 ^ 49"
proof -
  have e: "exponent x \<le> 3"
    using exponent_le [of x 3] assms by simp
  then have "49 \<le> nat (52 - exponent x)"
    by simp
  then have "(2::real) ^ 49 \<le> 2 ^ nat (52 - exponent x)"
    by (rule power_increasing) simp
  then have "1 / 2 ^ nat (52 - exponent x) \<le> 1 / (2::real) ^ 49"
    by (simp add: field_simps)
  with e show ?thesis
    by (simp add: ulp_def Let_def)
qed

lemma fdiv_100_15: "fdiv 100 15 = 7505999378950827 / 1125899906842624"
  by (simp add: fl_eval)


subsection \<open>The floor of a quotient by the length of a day\<close>

text \<open>
  \<^verbatim>\<open>Math.floor(ms / msPerDay)\<close> floors the double quotient. For a number of
  milliseconds below \<open>2\<^sup>2\<^sup>6\<close> days in size the double quotient has the floor of the exact
  quotient, which is the integer quotient.
\<close>

lemma roundHalfEven_ge_int: "real_of_int N \<le> y \<Longrightarrow> N \<le> roundHalfEven y"
proof -
  assume "real_of_int N \<le> y"
  then have "N \<le> \<lfloor>y\<rfloor>"
    by (simp add: le_floor_iff)
  then show ?thesis
    unfolding roundHalfEven_def Let_def by auto
qed

lemma roundHalfEven_le_int: "y \<le> real_of_int N \<Longrightarrow> roundHalfEven y \<le> N"
proof -
  assume a: "y \<le> real_of_int N"
  show ?thesis
  proof (cases "y = real_of_int N")
    case True
    then show ?thesis
      by (simp add: roundHalfEven_def Let_def)
  next
    case False
    with a have "y < real_of_int N"
      by simp
    then have "\<lfloor>y\<rfloor> < N"
      by (simp add: floor_less_iff)
    then show ?thesis
      unfolding roundHalfEven_def Let_def by auto
  qed
qed

lemma ulp_small:
  assumes "x < 2 ^ 26"
  obtains n where "27 \<le> n" and "ulp x = 1 / 2 ^ n"
proof -
  have e: "exponent x \<le> 25"
    using exponent_le [of x 25] assms by simp
  then have "27 \<le> nat (52 - exponent x)"
    by simp
  moreover have "ulp x = 1 / 2 ^ nat (52 - exponent x)"
    using e by (simp add: ulp_def Let_def)
  ultimately show thesis
    by (rule that)
qed

lemma floor_fl_quotient_nonneg:
  fixes m :: int
  assumes m: "0 \<le> m" and b: "m < 2 ^ 26 * msPerDay"
  shows "\<lfloor>fl (real_of_int m / real_of_int msPerDay)\<rfloor> = m div msPerDay"
proof -
  define x where "x = real_of_int m / real_of_int msPerDay"
  define k where "k = m div msPerDay"
  have D: "(0::real) < real_of_int msPerDay"
    using msPerDay_pos by simp
  have x0: "0 \<le> x"
    using m D by (simp add: x_def)
  have "x < 2 ^ 26"
    using b D by (simp add: x_def field_simps)
  then obtain n where n: "27 \<le> n" "ulp x = 1 / 2 ^ n"
    by (rule ulp_small)
  have lo: "msPerDay * k \<le> m" and hi: "m + 1 \<le> msPerDay * k + msPerDay"
    using int_div_bounds [OF msPerDay_pos, of m] by (simp_all add: k_def)
  have xlo: "real_of_int k \<le> x"
  proof -
    have "real_of_int (msPerDay * k) \<le> real_of_int m"
      using lo by (simp only: of_int_le_iff)
    then show ?thesis
      using D by (simp add: x_def field_simps)
  qed
  have xhi: "x \<le> real_of_int k + 1 - 1 / real_of_int msPerDay"
  proof -
    have "real_of_int (m + 1) \<le> real_of_int (msPerDay * k + msPerDay)"
      using hi by (simp only: of_int_le_iff)
    then show ?thesis
      using D by (simp add: x_def field_simps)
  qed
  define R where "R = roundHalfEven (x / ulp x)"
  have f: "fl x = real_of_int R / 2 ^ n"
    using x0 by (cases "x = 0") (simp_all add: fl_def R_def n(2) roundHalfEven_def)
  have "real_of_int (k * 2 ^ n) \<le> x / ulp x"
    using xlo by (simp add: n(2))
  then have Rlo: "k * 2 ^ n \<le> R"
    unfolding R_def by (rule roundHalfEven_ge_int)
  have p: "(2::real) ^ 27 \<le> 2 ^ n"
    using n(1) by (intro power_increasing) simp_all
  have "1 / 2 < (2::real) ^ 27 / real_of_int msPerDay"
    by (simp add: msPerDay_def)
  also have "\<dots> \<le> 2 ^ n / real_of_int msPerDay"
    using p D by (simp add: divide_right_mono)
  finally have q: "1 / 2 < 2 ^ n / real_of_int msPerDay" .
  have "x / ulp x \<le> (real_of_int k + 1 - 1 / real_of_int msPerDay) * 2 ^ n"
    using xhi by (simp add: n(2))
  also have "\<dots> = (real_of_int k + 1) * 2 ^ n - 2 ^ n / real_of_int msPerDay"
    by (simp add: algebra_simps)
  finally have "x / ulp x + 1 / 2 < (real_of_int k + 1) * 2 ^ n"
    using q by linarith
  with roundHalfEven_bounds(2) [of "x / ulp x"]
  have "real_of_int R < real_of_int ((k + 1) * 2 ^ n)"
    by (simp add: R_def)
  then have Rhi: "R < (k + 1) * 2 ^ n"
    by (simp only: of_int_less_iff)
  have "real_of_int k \<le> fl x"
  proof -
    have "real_of_int (k * 2 ^ n) \<le> real_of_int R"
      using Rlo by (simp only: of_int_le_iff)
    then show ?thesis
      by (simp add: f field_simps)
  qed
  moreover have "fl x < real_of_int k + 1"
  proof -
    have "real_of_int R < real_of_int ((k + 1) * 2 ^ n)"
      using Rhi by (simp only: of_int_less_iff)
    then show ?thesis
      by (simp add: f field_simps)
  qed
  ultimately have "\<lfloor>fl x\<rfloor> = k"
    by (simp add: floor_eq_iff)
  then show ?thesis
    by (simp add: x_def k_def)
qed

lemma ceiling_fl_quotient_pos:
  fixes m :: int
  assumes m: "0 < m" and b: "m < 2 ^ 26 * msPerDay"
  shows "\<lceil>fl (real_of_int m / real_of_int msPerDay)\<rceil> = - ((- m) div msPerDay)"
proof -
  define x where "x = real_of_int m / real_of_int msPerDay"
  define k where "k = - ((- m) div msPerDay)"
  have D: "(0::real) < real_of_int msPerDay"
    using msPerDay_pos by simp
  have x0: "0 < x"
    using m D by (simp add: x_def)
  have "x < 2 ^ 26"
    using b D by (simp add: x_def field_simps)
  then obtain n where n: "27 \<le> n" "ulp x = 1 / 2 ^ n"
    by (rule ulp_small)
  have hi: "m \<le> msPerDay * k" and lo: "msPerDay * k - msPerDay + 1 \<le> m"
    using int_div_bounds [OF msPerDay_pos, of "- m"] by (simp_all add: k_def)
  have xhi: "x \<le> real_of_int k"
  proof -
    have "real_of_int m \<le> real_of_int (msPerDay * k)"
      using hi by (simp only: of_int_le_iff)
    then show ?thesis
      using D by (simp add: x_def field_simps)
  qed
  have xlo: "real_of_int k - 1 + 1 / real_of_int msPerDay \<le> x"
  proof -
    have "real_of_int k - 1 + 1 / real_of_int msPerDay
        = real_of_int (msPerDay * k - msPerDay + 1) / real_of_int msPerDay"
      using D by (simp add: field_simps)
    also have "\<dots> \<le> real_of_int m / real_of_int msPerDay"
      using lo D by (intro divide_right_mono) (simp_all only: of_int_le_iff less_imp_le)
    finally show ?thesis
      by (simp add: x_def)
  qed
  define R where "R = roundHalfEven (x / ulp x)"
  have f: "fl x = real_of_int R / 2 ^ n"
    using x0 by (simp add: fl_def R_def n(2))
  have "x / ulp x \<le> real_of_int (k * 2 ^ n)"
    using xhi by (simp add: n(2))
  then have Rhi: "R \<le> k * 2 ^ n"
    unfolding R_def by (rule roundHalfEven_le_int)
  have p: "(2::real) ^ 27 \<le> 2 ^ n"
    using n(1) by (intro power_increasing) simp_all
  have "1 / 2 < (2::real) ^ 27 / real_of_int msPerDay"
    by (simp add: msPerDay_def)
  also have "\<dots> \<le> 2 ^ n / real_of_int msPerDay"
    using p D by (simp add: divide_right_mono)
  finally have q: "1 / 2 < 2 ^ n / real_of_int msPerDay" .
  have "(real_of_int k - 1) * 2 ^ n + 2 ^ n / real_of_int msPerDay
      = (real_of_int k - 1 + 1 / real_of_int msPerDay) * 2 ^ n"
    by (simp add: algebra_simps)
  also have "\<dots> \<le> x / ulp x"
    using xlo by (simp add: n(2))
  finally have "(real_of_int k - 1) * 2 ^ n < x / ulp x - 1 / 2"
    using q by linarith
  with roundHalfEven_bounds(1) [of "x / ulp x"]
  have "real_of_int ((k - 1) * 2 ^ n) < real_of_int R"
    by (simp add: R_def)
  then have Rlo: "(k - 1) * 2 ^ n < R"
    by (simp only: of_int_less_iff)
  have "fl x \<le> real_of_int k"
  proof -
    have "real_of_int R \<le> real_of_int (k * 2 ^ n)"
      using Rhi by (simp only: of_int_le_iff)
    then show ?thesis
      by (simp add: f field_simps)
  qed
  moreover have "real_of_int k - 1 < fl x"
  proof -
    have "real_of_int ((k - 1) * 2 ^ n) < real_of_int R"
      using Rlo by (simp only: of_int_less_iff)
    then show ?thesis
      by (simp add: f field_simps)
  qed
  ultimately have "\<lceil>fl x\<rceil> = k"
    by (simp add: ceiling_eq_iff)
  then show ?thesis
    by (simp add: x_def k_def)
qed

lemma floor_fdiv_msPerDay:
  assumes "\<bar>m\<bar> < 2 ^ 26 * msPerDay"
  shows "\<lfloor>fdiv (real_of_int m) (real_of_int msPerDay)\<rfloor> = m div msPerDay"
proof (cases "0 \<le> m")
  case True
  with assms show ?thesis
    unfolding fdiv_def by (intro floor_fl_quotient_nonneg) simp_all
next
  case False
  then have m: "0 < - m" "- m < 2 ^ 26 * msPerDay"
    using assms by simp_all
  have "fl (real_of_int m / real_of_int msPerDay)
      = - fl (real_of_int (- m) / real_of_int msPerDay)"
    using False msPerDay_pos by (simp add: fl_def sgn_if field_simps)
  then have "\<lfloor>fl (real_of_int m / real_of_int msPerDay)\<rfloor>
      = - \<lceil>fl (real_of_int (- m) / real_of_int msPerDay)\<rceil>"
    by (simp add: ceiling_def)
  also have "\<dots> = m div msPerDay"
    using ceiling_fl_quotient_pos [OF m] by simp
  finally show ?thesis
    by (simp add: fdiv_def)
qed


section \<open>Properties of the progress record\<close>

lemma TimeClip_Some: "TimeClip t = Some s \<Longrightarrow> s = t"
  by (simp add: TimeClip_def split: if_splits)

lemma newDate_Some:
  "newDate z k = Some t \<Longrightarrow>
     t = TimeFromYear (MakeFullYear k) - localOffset z (TimeFromYear (MakeFullYear k))"
  by (simp add: newDate_def Let_def TimeClip_Some)



lemma daysPassed_eq:
  "daysPassed (getYearProgressPrecise z now) =
     map_option (\<lambda>s. (now - s) div msPerDay) (newDate z (getFullYear z now))"
  by (simp add: getYearProgressPrecise_def Let_def option.map_comp comp_def)

lemma daysRemaining_eq:
  "daysRemaining (getYearProgressPrecise z now) =
     map_option (\<lambda>e. (e - now) div msPerDay) (newDate z (getFullYear z now + 1))"
  by (simp add: getYearProgressPrecise_def Let_def option.map_comp comp_def)

lemma totalDaysInYear_eq:
  "totalDaysInYear (getYearProgressPrecise z now) = (if isLeap (getFullYear z now) then 366 else 365)"
  by (simp add: getYearProgressPrecise_def Let_def)

subsection \<open>The sum of the two day counts\<close>

lemma div_neg_sum:
  fixes m D :: int
  assumes "0 < D"
  shows "m div D + (T * D - m) div D = (if D dvd m then T else T - 1)"
proof -
  have "(T * D - m) div D = (- m + T * D) div D"
    by simp
  also have "\<dots> = T + (- m) div D"
    using assms div_mult_self1 [of D "- m" T] by simp
  finally have "(T * D - m) div D = T + (- m) div D" .
  moreover have "(- m) div D = (if m mod D = 0 then - (m div D) else - (m div D) - 1)"
    using assms by (simp add: zdiv_zminus1_eq_if)
  ultimately show ?thesis
    by (simp add: dvd_eq_mod_eq_0)
qed

lemma div_add_cases:
  fixes a b D :: int
  assumes "0 < D"
  shows "a div D + b div D = (a + b) div D - 1 \<or> a div D + b div D = (a + b) div D"
proof -
  define r where "r = a mod D + b mod D"
  have r: "0 \<le> r" "r < 2 * D"
    using assms pos_mod_sign [of D a] pos_mod_sign [of D b] pos_mod_bound [of D a]
      pos_mod_bound [of D b] unfolding r_def by linarith+
  have "r div D = 0 \<or> r div D = 1"
  proof (cases "r < D")
    case True
    with r(1) show ?thesis
      by (simp add: div_pos_pos_trivial)
  next
    case False
    then have "0 \<le> r - D" "r - D < D"
      using r(2) by simp_all
    then have "(r - D) div D = 0"
      by (simp add: div_pos_pos_trivial)
    moreover have "r div D = (r - D) div D + 1"
      using assms div_add_self2 [of D "r - D"] by simp
    ultimately show ?thesis
      by simp
  qed
  moreover have "(a + b) div D = a div D + b div D + r div D"
    unfolding r_def by (rule div_add1_eq)
  ultimately show ?thesis
    by auto
qed

lemma isLeap_two_digit:
  assumes "1 \<le> y" and "y \<le> 98"
  shows "isLeap (1900 + y) \<longleftrightarrow> isLeap y"
proof -
  have a: "\<not> 100 dvd y"
    using assms by (intro zdvd_not_zless) simp_all
  have "100 dvd 1900 + y \<longleftrightarrow> 100 dvd y"
    by (rule dvd_add_right_iff) simp
  with a have b: "\<not> 100 dvd 1900 + y"
    by simp
  have c: "\<not> 400 dvd y" "\<not> 400 dvd 1900 + y"
    using a b by (auto elim: dvd_trans [rotated])
  have d: "4 dvd 1900 + y \<longleftrightarrow> 4 dvd y"
    by (rule dvd_add_right_iff) simp
  show ?thesis
    unfolding isLeap_iff using a b c d by simp
qed

lemma year_length:
  assumes "y \<noteq> - 1" and "y \<noteq> 0" and "y \<noteq> 99"
  shows "TimeFromYear (MakeFullYear (y + 1)) =
     TimeFromYear (MakeFullYear y) + (if isLeap y then 366 else 365) * msPerDay"
proof (cases "1 \<le> y \<and> y \<le> 98")
  case True
  then have "MakeFullYear y = 1900 + y" "MakeFullYear (y + 1) = 1900 + y + 1"
    by (simp_all add: MakeFullYear_def)
  with True show ?thesis
    by (simp only: TimeFromYear_Suc isLeap_two_digit)
next
  case False
  with assms have "MakeFullYear y = y" "MakeFullYear (y + 1) = y + 1"
    by (auto simp: MakeFullYear_def)
  then show ?thesis
    by (simp only: TimeFromYear_Suc)
qed

lemma days_sum_general:
  assumes s: "newDate z (getFullYear z now) = Some s"
    and e: "newDate z (getFullYear z now + 1) = Some e"
  shows "daysPassed (getYearProgressPrecise z now) = Some ((now - s) div msPerDay)"
    and "daysRemaining (getYearProgressPrecise z now) = Some ((e - now) div msPerDay)"
    and "(now - s) div msPerDay + (e - now) div msPerDay = (e - s) div msPerDay - 1
       \<or> (now - s) div msPerDay + (e - now) div msPerDay = (e - s) div msPerDay"
proof -
  show "daysPassed (getYearProgressPrecise z now) = Some ((now - s) div msPerDay)"
    by (simp add: daysPassed_eq s)
  show "daysRemaining (getYearProgressPrecise z now) = Some ((e - now) div msPerDay)"
    by (simp add: daysRemaining_eq e)
  from div_add_cases [OF msPerDay_pos, of "now - s" "e - now"]
  show "(now - s) div msPerDay + (e - now) div msPerDay = (e - s) div msPerDay - 1
       \<or> (now - s) div msPerDay + (e - now) div msPerDay = (e - s) div msPerDay"
    by simp
qed

lemma days_sum:
  assumes y: "getFullYear z now \<noteq> - 1" "getFullYear z now \<noteq> 0" "getFullYear z now \<noteq> 99"
    and s: "newDate z (getFullYear z now) = Some s"
    and e: "newDate z (getFullYear z now + 1) = Some e"
    and off: "localOffset z (TimeFromYear (MakeFullYear (getFullYear z now))) =
      localOffset z (TimeFromYear (MakeFullYear (getFullYear z now + 1)))"
  shows "e - s = totalDaysInYear (getYearProgressPrecise z now) * msPerDay"
    and "(now - s) div msPerDay + (e - now) div msPerDay =
      (if msPerDay dvd now - s then totalDaysInYear (getYearProgressPrecise z now)
       else totalDaysInYear (getYearProgressPrecise z now) - 1)"
proof -
  let ?y = "getFullYear z now"
  let ?T = "if isLeap ?y then 366 else 365 :: int"
  have "e - s = TimeFromYear (MakeFullYear (?y + 1)) - TimeFromYear (MakeFullYear ?y)"
    using newDate_Some [OF s] newDate_Some [OF e] off by simp
  then have d: "e - s = ?T * msPerDay"
    by (simp only: year_length [OF y])
  then show "e - s = totalDaysInYear (getYearProgressPrecise z now) * msPerDay"
    by (simp only: totalDaysInYear_eq)
  from d have eq: "e - now = ?T * msPerDay - (now - s)"
    by simp
  show "(now - s) div msPerDay + (e - now) div msPerDay =
      (if msPerDay dvd now - s then totalDaysInYear (getYearProgressPrecise z now)
       else totalDaysInYear (getYearProgressPrecise z now) - 1)"
    unfolding totalDaysInYear_eq eq by (rule div_neg_sum [OF msPerDay_pos])
qed

subsection \<open>Zones of constant offset\<close>

lemma getFullYear_fixed: "getFullYear (fixedZone tza) t = YearFromTime (t + tza)"
  by (simp add: getFullYear_def fixedZone_def)

lemma newDate_fixed:
  "newDate (fixedZone tza) year = TimeClip (TimeFromYear (MakeFullYear year) - tza)"
  by (simp add: newDate_def fixedZone_def)


lemma getFullYear_unique:
  "TimeFromYear y - tza \<le> now \<Longrightarrow> now < TimeFromYear (y + 1) - tza \<Longrightarrow>
     getFullYear (fixedZone tza) now = y"
  unfolding getFullYear_fixed by (rule YearFromTime_unique) simp_all







subsection \<open>Concrete instants\<close>

lemma TimeFromYear_values:
  "TimeFromYear 2024 = 1704067200000" "TimeFromYear 2025 = 1735689600000"
  "TimeFromYear 2000 = 946684800000" "TimeFromYear 2001 = 978307200000"
  "TimeFromYear 2023 = 1672531200000"
  "TimeFromYear 1900 = - 2208988800000" "TimeFromYear 1901 = - 2177452800000"
  "TimeFromYear 50 = - 60589296000000" "TimeFromYear 51 = - 60557760000000"
  "TimeFromYear 1950 = - 631152000000" "TimeFromYear 1951 = - 599616000000"
  "TimeFromYear (- 1) = - 62198755200000" "TimeFromYear 0 = - 62167219200000"
  "TimeFromYear 1 = - 62135596800000"
  "TimeFromYear 99 = - 59042995200000" "TimeFromYear 100 = - 59011459200000"
  "TimeFromYear 1999 = 915148800000"
  "TimeFromYear 2016 = 1451606400000" "TimeFromYear 2017 = 1483228800000"
  "TimeFromYear (- 271821) = - 8640009417600000"
  "TimeFromYear (- 271820) = - 8639977881600000"
  by (simp_all add: TimeFromYear_def DayFromYear_def msPerDay_def)

lemma getFullYear_values:
  "getFullYear utc 1704067200000 = 2024"
  "getFullYear utc 1704067200001 = 2024"
  "getFullYear utc 1720000000000 = 2024"
  "getFullYear utc 1704067199999 = 2023"
  "getFullYear utc 946684800000 = 2000"
  "getFullYear utc 1672531200000 = 2023"
  "getFullYear utc 1690401600000 = 2023"
  "getFullYear utc 1672688879990 = 2023"
  "getFullYear utc 1672688880010 = 2023"
  "getFullYear utc (- 2208988800000) = 1900"
  "getFullYear utc (- 60589296000000) = 50"
  "getFullYear utc (- 60557760000001) = 50"
  "getFullYear utc (- 62198755199995) = - 1"
  "getFullYear utc (- 62167219199995) = 0"
  "getFullYear utc (- 59042995199995) = 99"
  "getFullYear utc (- 8640000000000000) = - 271821"
  by (rule getFullYear_unique; simp add: TimeFromYear_values)+

lemma newDate_values:
  "newDate utc 2024 = Some 1704067200000"
  "newDate utc 2025 = Some 1735689600000"
  "newDate utc 2023 = Some 1672531200000"
  "newDate utc 50 = Some (- 631152000000)"
  "newDate utc 51 = Some (- 599616000000)"
  "newDate utc (- 1) = Some (- 62198755200000)"
  "newDate utc 0 = Some (- 2208988800000)"
  "newDate utc 1 = Some (- 2177452800000)"
  "newDate utc 99 = Some 915148800000"
  "newDate utc 100 = Some (- 59011459200000)"
  "newDate utc (- 271821) = None"
  by (simp_all add: newDate_fixed MakeFullYear_def TimeClip_def maxTimeValue_def
      TimeFromYear_values)

lemma istanbul_values:
  "getFullYear istanbul 1451683800000 = 2016"
  "newDate istanbul 2016 = Some 1451599200000"
  "newDate istanbul 2017 = Some 1483218000000"
proof -
  have "YearFromTime (1451683800000 + 7200000) = 2016"
    by (rule YearFromTime_unique) (simp_all add: TimeFromYear_values)
  then show "getFullYear istanbul 1451683800000 = 2016"
    by (simp add: getFullYear_def istanbul_def)
  show "newDate istanbul 2016 = Some 1451599200000"
    "newDate istanbul 2017 = Some 1483218000000"
    by (simp_all add: newDate_def istanbul_def MakeFullYear_def TimeClip_def maxTimeValue_def
        TimeFromYear_values)
qed

lemma percentage_values:
  "percentage (getYearProgressPrecise utc 1720000000000)
     = Some (7090993265747603 / 140737488355328)"
  "percentage (getYearProgressPrecise utc 1690401600000)
     = Some (7975124340135253 / 140737488355328)"
  "percentage (getYearProgressPrecise utc 1672688879990)
     = Some (4503599341754081 / 9007199254740992)"
  "percentage (getYearProgressPrecise utc 1672688880010)
     = Some (4503599912986911 / 9007199254740992)"
  "percentage (getYearProgressPrecise utc (- 60589296000000))
     = Some (- 6532680558317063 / 34359738368)"
  by (simp_all add: getYearProgressPrecise_def Let_def getFullYear_values newDate_values
      isLeap_iff) (simp_all add: fl_eval)

lemma percentage_NaN:
  "percentage (getYearProgressPrecise utc (- 8640000000000000)) = None"
  by (simp add: getYearProgressPrecise_def Let_def getFullYear_values newDate_values)

section \<open>Properties of the clipboard text\<close>

lemma toFixed_0_nonneg: "0 \<le> p \<Longrightarrow> toFixed 0 (Some p) = decimal (nat (roundHalfUp p))"
  by (simp add: toFixed_def toFixedAbs_def)

lemma numFilled_bounds:
  assumes "0 \<le> p" and "p \<le> 100"
  shows "0 \<le> roundHalfUp (fdiv p (fdiv 100 15))"
    and "roundHalfUp (fdiv p (fdiv 100 15)) \<le> 15"
proof -
  define q where "q = p / (7505999378950827 / 1125899906842624)"
  have q: "0 \<le> q" "q < 15"
    using assms by (simp_all add: q_def field_simps)
  have f: "fdiv p (fdiv 100 15) = fl q"
    by (simp add: fdiv_100_15 q_def) (simp add: fdiv_def)
  have "0 \<le> fl q"
    using q(1) by (rule fl_nonneg)
  then have "0 \<le> fl q + 1 / 2"
    by simp
  then show "0 \<le> roundHalfUp (fdiv p (fdiv 100 15))"
    unfolding f roundHalfUp_def by simp
  have "ulp q \<le> 1 / 2 ^ 49"
    using q(2) by (intro ulp_le) simp
  with fl_upper [OF q(1)] q(2) have "fl q + 1 / 2 < 16"
    by simp
  then have "\<lfloor>fl q + 1 / 2\<rfloor> < 16"
    by (simp add: floor_less_iff)
  then show "roundHalfUp (fdiv p (fdiv 100 15)) \<le> 15"
    unfolding f roundHalfUp_def by simp
qed

lemma clipboardText_in_range:
  assumes "percentage progress = Some p" and "0 \<le> p" and "p \<le> 100"
  shows "clipboardText progress =
     Inr (replicate (nat (roundHalfUp (fdiv p (fdiv 100 15)))) BLOCK_FILLED
          @ replicate (15 - nat (roundHalfUp (fdiv p (fdiv 100 15)))) BLOCK_EMPTY
          @ CH CHR '' '' # map CH (decimal (nat (roundHalfUp p))) @ [CH CHR ''%''])"
proof -
  let ?n = "roundHalfUp (fdiv p (fdiv 100 15))"
  note b = numFilled_bounds [OF assms(2,3)]
  have "nat (15 - ?n) = 15 - nat ?n"
    using b by simp
  then show ?thesis
    using assms b by (simp add: clipboardText_def Let_def toFixed_0_nonneg CLIPBOARD_BLOCKS_TOTAL_def)
qed

lemma clipboardText_values:
  "clipboardText (getYearProgressPrecise utc 1672688880010)
     = Inr (replicate 15 BLOCK_EMPTY @ map CH '' 1%'')"
  "clipboardText (getYearProgressPrecise utc 1720000000000)
     = Inr (replicate 8 BLOCK_FILLED @ replicate 7 BLOCK_EMPTY @ map CH '' 50%'')"
  "clipboardText (getYearProgressPrecise utc 1690401600000)
     = Inr (replicate 9 BLOCK_FILLED @ replicate 6 BLOCK_EMPTY @ map CH '' 57%'')"
  "clipboardText (getYearProgressPrecise utc (- 60589296000000)) = Inl RangeError"
  by (simp_all add: clipboardText_def percentage_values Let_def CLIPBOARD_BLOCKS_TOTAL_def
      fdiv_100_15)
     (simp_all add: roundHalfUp_def toFixed_def toFixedAbs_def decimal.simps digit_def fl_eval)

lemma clipboardText_NaN:
  "clipboardText (getYearProgressPrecise utc (- 8640000000000000)) = Inr (map CH '' NaN%'')"
  by (simp add: clipboardText_def percentage_NaN toFixed_def)

lemma copyToClipboard_frame:
  "currentProgressData (copyToClipboard w s) = currentProgressData s"
  "rendered (copyToClipboard w s) = rendered s"
  "clipboard (copyToClipboard w (s\<lparr>clock := c\<rparr>)) = clipboard (copyToClipboard w s)"
  by (simp_all add: copyToClipboard_def split: option.splits sum.splits)

section \<open>Properties of the two scripts\<close>

lemmas host_ops =
  setInterval_def setTimeout_def clearTimer_def requestAnimationFrame_def
  cancelAnimationFrame_def truthy_def

subsection \<open>Starting and stopping\<close>

text \<open>
  In the script with the stored record, the hidden path and the visible path of
  \<^verbatim>\<open>handleVisibilityChange\<close> are both guarded by \<open>updateTimer\<close>, and a second call
  changes nothing. In the script with the animation loop the hidden path is idempotent
  too, but the visible path has no guard. The export handler of the first script clears
  the interval without resetting \<open>updateTimer\<close>. The start in its
  \<^verbatim>\<open>DOMContentLoaded\<close> handler is not guarded: a visible notification that arrives
  before \<^verbatim>\<open>DOMContentLoaded\<close> leaves two intervals armed.
\<close>

lemma hidden_twice:
  "hidden s \<Longrightarrow> handleVisibilityChange (handleVisibilityChange s) = handleVisibilityChange s"
  by (cases "updateTimer s"; cases "debounceTimeout s";
      simp add: handleVisibilityChange_def Let_def host_ops)

lemma visible_twice:
  assumes "\<not> hidden s" and "nextTimer s \<noteq> 0"
  shows "handleVisibilityChange (handleVisibilityChange s) = handleVisibilityChange s"
  using assms
  by (cases "updateTimer s")
     (simp_all add: handleVisibilityChange_def Let_def updateUI_def host_ops)

lemma visible_arms_once:
  "(let s1 = handleVisibilityChange (initial z t False);
        s2 = handleVisibilityChange s1
    in intervals s1 = [(1, UPDATE_INTERVAL)] \<and> s2 = s1)"
  by (simp add: handleVisibilityChange_def initial_def updateUI_def Let_def host_ops)

lemma hidden_twice_raf:
  "hidden s \<Longrightarrow>
     handleVisibilityChange_raf (handleVisibilityChange_raf s) = handleVisibilityChange_raf s"
  by (cases "animationFrameId s"; cases "staticTimerId s";
      simp add: handleVisibilityChange_raf_def host_ops)

lemma visible_raf_arms:
  assumes "\<not> hidden s"
  shows "frames (handleVisibilityChange_raf s) = frames s @ [nextFrame s]"
    and "intervals (handleVisibilityChange_raf s) =
      intervals s @ [(nextTimer s, STATIC_UPDATE_INTERVAL)]"
    and "\<not> hidden (handleVisibilityChange_raf s)"
  using assms
  by (simp_all add: handleVisibilityChange_raf_def updateStaticElements_def Let_def host_ops)

lemma exportHandler_not_restarted:
  assumes "updateTimer s = Some h" and "h \<noteq> 0"
  shows "intervals (exportHandler outcome s) = filter (\<lambda>x. fst x \<noteq> h) (intervals s)"
    and "updateTimer (exportHandler outcome s) = Some h"
  using assms
  by (cases outcome;
      simp add: exportHandler_def exportBegin_def exportSettle_def exportFinally_def Let_def
        host_ops)+

lemma export_and_visibility_arm_twice:
  "(let s1 = domContentLoaded_raf (initial_raf z t False);
        s2 = exportBegin_raf s1;
        s3 = handleVisibilityChange_raf (s2\<lparr>hidden := True\<rparr>);
        s4 = handleVisibilityChange_raf (s3\<lparr>hidden := False\<rparr>);
        s5 = exportFinally_raf s4
    in frames s1 = [1] \<and> intervals s1 = [(1, STATIC_UPDATE_INTERVAL)]
       \<and> frames s2 = [] \<and> intervals s2 = []
       \<and> frames s5 = [2, 3]
       \<and> intervals s5 = [(3, STATIC_UPDATE_INTERVAL), (4, STATIC_UPDATE_INTERVAL)]
       \<and> frames (fold frameFire (frames s5) s5) = [4, 5])"
  by (simp add: domContentLoaded_raf_def exportBegin_raf_def exportFinally_raf_def
      handleVisibilityChange_raf_def initial_raf_def updateStaticElements_def Let_def
      frameFire_def animationLoop_def updateLiveElements_def host_ops)

lemma visible_before_load_arms_twice:
  "(let s = run (initial z t True) [VisibilityChange False, DOMContentLoaded savedLang browserLang]
    in intervals s = [(1, UPDATE_INTERVAL), (2, UPDATE_INTERVAL)] \<and> updateTimer s = Some 2)"
  by (simp add: run_def initial_def handleVisibilityChange_def domContentLoaded_def
      setLanguage_def updateUI_def Let_def host_ops)

subsection \<open>A record is stored before the copy listener is attached\<close>

lemma fold_invariant:
  assumes "\<And>x s. P s \<Longrightarrow> P (f x s)" and "P s"
  shows "P (fold f xs s)"
  using assms(2) by (induction xs arbitrary: s) (simp_all add: assms(1))

lemma recordStored_updateUI: "currentProgressData (updateUI s) \<noteq> None"
  by (simp add: updateUI_def Let_def)

lemma stored_fireTimeout:
  "copyListener (fireTimeout x s) = copyListener s" "currentProgressData (fireTimeout x s) \<noteq> None"
  by (simp_all add: fireTimeout_def updateUI_def Let_def)

lemma stored_advance: "recordStored s \<Longrightarrow> recordStored (advance t s)"
proof -
  assume a: "recordStored s"
  have "recordStored (fold fireTimeout xs s)" for xs
    using a by (rule fold_invariant [rotated]) (simp add: recordStored_def stored_fireTimeout)
  then show ?thesis
    by (simp add: advance_def Let_def recordStored_def)
qed

lemma stored_debounced: "recordStored s \<Longrightarrow> recordStored (debouncedUpdateUI s)"
  by (cases "debounceTimeout s")
     (simp_all add: recordStored_def debouncedUpdateUI_def Let_def host_ops)

lemma stored_visibility: "recordStored s \<Longrightarrow> recordStored (handleVisibilityChange (s\<lparr>hidden := h\<rparr>))"
  by (cases "updateTimer s"; cases "debounceTimeout s")
     (simp_all add: recordStored_def handleVisibilityChange_def updateUI_def Let_def host_ops)

lemma stored_copy: "recordStored s \<Longrightarrow> recordStored (copyToClipboard w s)"
  by (auto simp: recordStored_def copyToClipboard_def split: option.splits sum.splits)

lemma stored_exportBegin: "recordStored s \<Longrightarrow> recordStored (exportBegin s)"
  by (cases "updateTimer s") (simp_all add: recordStored_def exportBegin_def Let_def host_ops)

lemma stored_exportSettle: "recordStored s \<Longrightarrow> recordStored (exportSettle outcome s)"
  by (cases outcome; cases "updateTimer s")
     (simp_all add: recordStored_def exportSettle_def exportFinally_def Let_def host_ops)

lemma stored_setLanguage: "recordStored (setLanguage lang s)"
  by (simp add: recordStored_def setLanguage_def updateUI_def Let_def)

lemma stored_cleanup: "recordStored (cleanup s)"
  by (simp add: recordStored_def cleanup_def Let_def)

lemma stored_domContentLoaded:
  "currentProgressData (domContentLoaded savedLang browserLang s) \<noteq> None"
  "copyListener (domContentLoaded savedLang browserLang s)"
  by (simp_all add: domContentLoaded_def setLanguage_def updateUI_def Let_def host_ops)

lemma stored_step: "recordStored s \<Longrightarrow> recordStored (step s e)"
proof (cases e)
  case (DOMContentLoaded savedLang browserLang)
  assume "recordStored s"
  with DOMContentLoaded stored_domContentLoaded [of savedLang browserLang s] show ?thesis
    by (auto simp: recordStored_def)
next
  case (VisibilityChange h)
  assume "recordStored s"
  with VisibilityChange stored_visibility [of s h] show ?thesis
    by (simp add: recordStored_def)
next
  case (Advance t)
  then show "recordStored s \<Longrightarrow> ?thesis" by (simp add: stored_advance)
next
  case (IntervalFire h)
  then show "recordStored s \<Longrightarrow> ?thesis" by (simp add: intervalFire_def stored_debounced)
next
  case (CopyClick w)
  then show "recordStored s \<Longrightarrow> ?thesis" by (simp add: stored_copy)
next
  case (ExportClick ready)
  then show "recordStored s \<Longrightarrow> ?thesis"
    by (simp add: exportHandler_def stored_exportBegin stored_exportSettle)
next
  case (ExportSettled ok)
  then show "recordStored s \<Longrightarrow> ?thesis" by (simp add: stored_exportSettle)
next
  case LanguageClick
  then show "recordStored s \<Longrightarrow> ?thesis" by (simp add: stored_setLanguage)
next
  case BeforeUnload
  then show "recordStored s \<Longrightarrow> ?thesis" by (simp add: stored_cleanup)
qed

lemma stored_run: "recordStored s \<Longrightarrow> recordStored (run s es)"
  unfolding run_def by (induction es arbitrary: s) (simp_all add: stored_step)

lemma stored_initial: "recordStored (initial z t h)"
  by (simp add: recordStored_def initial_def)

subsection \<open>The debounce\<close>

lemma advance_nothing_pending:
  assumes "timeouts s = []"
  shows "advance t s = s\<lparr>clock := max (clock s) t\<rparr>"
  using assms by (simp add: advance_def)

lemma advance_not_due:
  assumes "timeouts s = [(h, d)]" and "t < d"
  shows "advance t s = s\<lparr>clock := max (clock s) t\<rparr>"
  using assms by (simp add: advance_def)

lemma advance_due:
  assumes "timeouts s = [(h, d)]" and "d \<le> t"
  shows "advance t s =
    (updateUI (s\<lparr>clock := max (clock s) d, timeouts := []\<rparr>))\<lparr>clock := max (max (clock s) d) t\<rparr>"
  using assms by (simp add: advance_def fireTimeout_def updateUI_def Let_def)

lemma debounced_nothing_pending:
  assumes "timeouts s = []"
  shows "timeouts (debouncedUpdateUI s) = [(nextTimer s, clock s + DEBOUNCE_DELAY)]"
    and "debounceTimeout (debouncedUpdateUI s) = Some (nextTimer s)"
    and "nextTimer (debouncedUpdateUI s) = Suc (nextTimer s)"
    and "clock (debouncedUpdateUI s) = clock s"
    and "rendered (debouncedUpdateUI s) = rendered s"
    and "localZone (debouncedUpdateUI s) = localZone s"
  using assms
  by (cases "debounceTimeout s"; simp add: debouncedUpdateUI_def Let_def host_ops)+

lemma debounced_one_pending:
  assumes "timeouts s = [(h, d)]" and "debounceTimeout s = Some h" and "h \<noteq> 0"
  shows "timeouts (debouncedUpdateUI s) = [(nextTimer s, clock s + DEBOUNCE_DELAY)]"
    and "debounceTimeout (debouncedUpdateUI s) = Some (nextTimer s)"
    and "nextTimer (debouncedUpdateUI s) = Suc (nextTimer s)"
    and "clock (debouncedUpdateUI s) = clock s"
    and "rendered (debouncedUpdateUI s) = rendered s"
    and "localZone (debouncedUpdateUI s) = localZone s"
  using assms by (simp_all add: debouncedUpdateUI_def Let_def host_ops)

lemma debounced_cancels_pending:
  assumes "debounceTimeout s = Some h" and "h \<noteq> 0" and "h \<noteq> nextTimer s"
  shows "h \<notin> fst ` set (timeouts (debouncedUpdateUI s))"
  using assms by (auto simp: debouncedUpdateUI_def Let_def host_ops)

lemma trigger_quiet:
  assumes "quiet s t" and "clock s \<le> t"
  shows "timeouts (trigger t s) = [(nextTimer s, t + DEBOUNCE_DELAY)]"
    and "debounceTimeout (trigger t s) = Some (nextTimer s)"
    and "nextTimer (trigger t s) = Suc (nextTimer s)"
    and "clock (trigger t s) = t"
    and "rendered (trigger t s) = rendered s"
    and "localZone (trigger t s) = localZone s"
proof -
  have adv: "advance t s = s\<lparr>clock := t\<rparr>"
    using assms advance_nothing_pending [of s t] advance_not_due [of s _ _ t]
    by (auto simp: quiet_def max_def)
  from assms(1) consider "timeouts (s\<lparr>clock := t\<rparr>) = []"
    | h d where "timeouts (s\<lparr>clock := t\<rparr>) = [(h, d)]" "debounceTimeout (s\<lparr>clock := t\<rparr>) = Some h" "h \<noteq> 0"
    by (auto simp: quiet_def)
  then have "timeouts (trigger t s) = [(nextTimer s, t + DEBOUNCE_DELAY)]
     \<and> debounceTimeout (trigger t s) = Some (nextTimer s)
     \<and> nextTimer (trigger t s) = Suc (nextTimer s)
     \<and> clock (trigger t s) = t
     \<and> rendered (trigger t s) = rendered s
     \<and> localZone (trigger t s) = localZone s"
  proof cases
    case 1
    from debounced_nothing_pending [OF 1] show ?thesis
      by (simp add: trigger_def adv)
  next
    case 2
    from debounced_one_pending [OF 2] show ?thesis
      by (simp add: trigger_def adv)
  qed
  then show "timeouts (trigger t s) = [(nextTimer s, t + DEBOUNCE_DELAY)]"
    and "debounceTimeout (trigger t s) = Some (nextTimer s)"
    and "nextTimer (trigger t s) = Suc (nextTimer s)"
    and "clock (trigger t s) = t"
    and "rendered (trigger t s) = rendered s"
    and "localZone (trigger t s) = localZone s"
    by simp_all
qed

lemma burst_pending:
  assumes "ts \<noteq> []" and "sorted ts" and "\<forall>x\<in>set ts. x < hd ts + DEBOUNCE_DELAY"
    and "quiet s (hd ts)" and "clock s \<le> hd ts"
  shows "\<exists>h. timeouts (burst ts s) = [(h, last ts + DEBOUNCE_DELAY)]
      \<and> debounceTimeout (burst ts s) = Some h \<and> h \<noteq> 0
      \<and> nextTimer (burst ts s) \<noteq> 0
      \<and> clock (burst ts s) = last ts
      \<and> rendered (burst ts s) = rendered s
      \<and> localZone (burst ts s) = localZone s"
  using assms
proof (induction ts arbitrary: s)
  case Nil
  then show ?case by simp
next
  case (Cons t ts)
  from Cons.prems have q: "quiet s t" and c: "clock s \<le> t"
    by simp_all
  note tr = trigger_quiet [OF q c]
  from q have n: "nextTimer s \<noteq> 0"
    by (simp add: quiet_def)
  show ?case
  proof (cases ts)
    case Nil
    with tr n show ?thesis
      by (simp add: burst_def)
  next
    case (Cons t' ts')
    with Cons.prems have le: "t \<le> t'" and lt: "t' < t + DEBOUNCE_DELAY"
      by simp_all
    have 1: "ts \<noteq> []"
      using Cons by simp
    have 2: "sorted ts"
      using Cons.prems by simp
    have 3: "\<forall>x\<in>set ts. x < hd ts + DEBOUNCE_DELAY"
      using Cons.prems le local.Cons by auto
    have 4: "quiet (trigger t s) (hd ts)"
      using tr n lt local.Cons by (simp add: quiet_def)
    have 5: "clock (trigger t s) \<le> hd ts"
      using tr le local.Cons by simp
    from Cons.IH [OF 1 2 3 4 5] tr 1 show ?thesis
      by (simp add: burst_def)
  qed
qed

lemma window_bound:
  assumes "ts \<noteq> []" and "sorted ts" and "last ts - hd ts < DEBOUNCE_DELAY"
  shows "\<forall>x\<in>set ts. x < hd ts + DEBOUNCE_DELAY"
proof
  fix x
  assume "x \<in> set ts"
  then obtain i where "i < length ts" "x = ts ! i"
    by (auto simp: in_set_conv_nth)
  with assms(1,2) have "x \<le> last ts"
    by (simp add: last_conv_nth sorted_nth_mono)
  with assms(3) show "x < hd ts + DEBOUNCE_DELAY"
    by simp
qed

lemma burst_take_pending:
  assumes "ts \<noteq> []" and "sorted ts" and "last ts - hd ts < DEBOUNCE_DELAY"
    and "timeouts s = []" and "nextTimer s \<noteq> 0" and "clock s \<le> hd ts"
  shows "length (timeouts (burst (take k ts) s)) \<le> 1"
proof (cases "take k ts = []")
  case True
  show ?thesis
    unfolding True using assms(4) by (simp add: burst_def)
next
  case False
  then have k: "0 < k"
    by (cases k) simp_all
  have hd: "hd (take k ts) = hd ts"
    using k assms(1) by (cases ts; cases k) simp_all
  have "\<forall>x\<in>set ts. x < hd ts + DEBOUNCE_DELAY"
    using assms(1-3) by (rule window_bound)
  then have w: "\<forall>x\<in>set (take k ts). x < hd (take k ts) + DEBOUNCE_DELAY"
    unfolding hd by (meson in_set_takeD)
  have s: "sorted (take k ts)"
    using assms(2) by (rule sorted_wrt_take)
  have q: "quiet s (hd (take k ts))"
    using assms(4,5) by (simp add: quiet_def)
  from burst_pending [OF False s w q] assms(6) hd show ?thesis
    by auto
qed

lemma getFullYear_values_newyear:
  "getFullYear utc 1704067199900 = 2023"
  "getFullYear utc 1704067200100 = 2024"
  by (rule getFullYear_unique; simp add: TimeFromYear_values)+

section \<open>The claims\<close>

text \<open>
  Claim C1 says that every export stops the scheduler before the capture and restarts it
  afterwards on every exit path, so that no export outcome leaves the scheduler stopped
  while the page is visible. The handler does run its \<^verbatim>\<open>finally\<close> block on every
  path, and the block means to restart the interval (its comment says so), but it tests
  \<^verbatim>\<open>!updateTimer\<close> and the handler has cleared the interval without setting
  \<open>updateTimer\<close> to \<^verbatim>\<open>null\<close>. On a page that was loaded visible, so that the interval
  with id 1 is running, an export with any outcome leaves no interval armed, the stale id
  still in \<open>updateTimer\<close>; a further visible notification does not arm one either.
  The older variant of the script has the same two statements in its export handler.
\<close>

theorem export_leaves_interval_stopped:
  "(let s0 = domContentLoaded savedLang browserLang (initial z t False);
        s = exportHandler outcome s0
    in \<not> hidden s0 \<and> intervals s0 = [(1, UPDATE_INTERVAL)] \<and> updateTimer s0 = Some 1
       \<and> \<not> hidden s \<and> intervals s = [] \<and> updateTimer s = Some 1
       \<and> intervals (handleVisibilityChange s) = [])"
  by (cases outcome)
     (simp_all add: domContentLoaded_def initial_def setLanguage_def updateUI_def Let_def
        exportHandler_def exportBegin_def exportSettle_def exportFinally_def
        handleVisibilityChange_def host_ops)

text \<open>
  Claim C2 says that \<^verbatim>\<open>copyToClipboard\<close> reads only the last stored record and
  computes nothing anew. The script with the animation loop stores no record, and its
  \<^verbatim>\<open>copyToClipboard\<close> calls \<^verbatim>\<open>getYearProgressPrecise\<close> itself: with the bar last
  drawn at 0.49999997 percent of 2023 and the copy made 20 ms later, the page shows a
  percentage that rounds to 0 and the clipboard text says 1.
\<close>

theorem copy_recomputes_counterexample:
  "(let s0 = domContentLoaded_raf (initial_raf utc 1672531200000 False);
        s1 = frameFire 1 (s0\<lparr>clock := 1672688879990\<rparr>);
        s2 = copyToClipboard_raf True (s1\<lparr>clock := 1672688880010\<rparr>)
    in map_option (\<lambda>r. toFixed 0 (percentage r)) (liveShown s2) = Some ''0''
       \<and> clipboard s2 = Some (replicate 15 BLOCK_EMPTY @ map CH '' 1%''))"
  by (simp add: domContentLoaded_raf_def initial_raf_def updateStaticElements_def Let_def
      frameFire_def animationLoop_def updateLiveElements_def copyToClipboard_raf_def host_ops
      clipboardText_values percentage_values toFixed_def toFixedAbs_def roundHalfUp_def
      decimal.simps digit_def)

text \<open>
  Claim C2, as amended. In the script with the stored record, \<^verbatim>\<open>copyToClipboard\<close>
  reads only \<open>currentProgressData\<close>: the text does not depend on the clock, nothing is
  recomputed or displayed, the text is the one built from the stored record, and for a
  stored percentage from 0 to 100 it is a bar of 15 glyphs followed by a space, the
  stored percentage rounded to a whole number, and a percent sign. In the script with the
  animation loop the text is built from a record computed at the instant of the copy.
\<close>

theorem copy_reads_stored_record:
  "clipboard (copyToClipboard w (s\<lparr>clock := c\<rparr>)) = clipboard (copyToClipboard w s)
   \<and> currentProgressData (copyToClipboard w s) = currentProgressData s
   \<and> rendered (copyToClipboard w s) = rendered s
   \<and> (currentProgressData s = Some progress \<and> clipboardText progress = Inr clip
        \<longrightarrow> clipboard (copyToClipboard True s) = Some clip)
   \<and> (currentProgressData s = Some progress \<and> percentage progress = Some p \<and> 0 \<le> p \<and> p \<le> 100
        \<longrightarrow> (\<exists>bar. length bar = 15 \<and> clipboard (copyToClipboard True s) =
              Some (bar @ CH CHR '' '' # map CH (decimal (nat (roundHalfUp p))) @ [CH CHR ''%''])))
   \<and> (clipboardText (getYearProgressPrecise (localZone u) (clock u)) = Inr clip'
        \<longrightarrow> clipboard (copyToClipboard_raf True u) = Some clip')"
proof -
  have "\<exists>bar. length bar = 15 \<and> clipboard (copyToClipboard True s) =
      Some (bar @ CH CHR '' '' # map CH (decimal (nat (roundHalfUp p))) @ [CH CHR ''%''])"
    if "currentProgressData s = Some progress" "percentage progress = Some p" "0 \<le> p" "p \<le> 100"
  proof -
    let ?n = "nat (roundHalfUp (fdiv p (fdiv 100 15)))"
    have "?n \<le> 15"
      using numFilled_bounds(2) [OF that(3,4)] by simp
    then have "length (replicate ?n BLOCK_FILLED @ replicate (15 - ?n) BLOCK_EMPTY) = 15"
      by simp
    moreover have "clipboard (copyToClipboard True s) =
        Some ((replicate ?n BLOCK_FILLED @ replicate (15 - ?n) BLOCK_EMPTY)
              @ CH CHR '' '' # map CH (decimal (nat (roundHalfUp p))) @ [CH CHR ''%''])"
      using clipboardText_in_range [OF that(2-4)] that(1) by (simp add: copyToClipboard_def)
    ultimately show ?thesis
      by blast
  qed
  moreover have "clipboard (copyToClipboard True s) = Some clip"
    if "currentProgressData s = Some progress" "clipboardText progress = Inr clip"
    using that by (simp add: copyToClipboard_def)
  moreover have "clipboard (copyToClipboard_raf True u) = Some clip'"
    if "clipboardText (getYearProgressPrecise (localZone u) (clock u)) = Inr clip'"
    using that by (simp add: copyToClipboard_raf_def Let_def)
  ultimately show ?thesis
    using copyToClipboard_frame(1,2) [where w = w and s = s]
      copyToClipboard_frame(3) [where w = w and s = s and c = c]
    by blast
qed

theorem copy_reads_stored_record_witness:
  "currentProgressData ((domContentLoaded None ''en-US'' (initial utc 1720000000000 False))\<lparr>clock := 1730000000000\<rparr>)
     = Some (getYearProgressPrecise utc 1720000000000)
   \<and> percentage (getYearProgressPrecise utc 1720000000000)
      = Some (7090993265747603 / 140737488355328)
   \<and> (0::real) \<le> 7090993265747603 / 140737488355328
   \<and> (7090993265747603 / 140737488355328 :: real) \<le> 100
   \<and> clipboardText (getYearProgressPrecise utc 1720000000000)
      = Inr (replicate 8 BLOCK_FILLED @ replicate 7 BLOCK_EMPTY @ map CH '' 50%'')
   \<and> clipboard (copyToClipboard True
        ((domContentLoaded None ''en-US'' (initial utc 1720000000000 False))\<lparr>clock := 1730000000000\<rparr>))
      = Some (replicate 8 BLOCK_FILLED @ replicate 7 BLOCK_EMPTY @ map CH '' 50%'')
   \<and> clipboard (copyToClipboard_raf True (initial_raf utc 1720000000000 False))
      = Some (replicate 8 BLOCK_FILLED @ replicate 7 BLOCK_EMPTY @ map CH '' 50%'')"
proof -
  let ?s = "(domContentLoaded None ''en-US'' (initial utc 1720000000000 False))\<lparr>clock := 1730000000000\<rparr>"
  let ?u = "initial_raf utc 1720000000000 False"
  let ?text = "replicate 8 BLOCK_FILLED @ replicate 7 BLOCK_EMPTY @ map CH '' 50%''"
  have 1: "currentProgressData ?s = Some (getYearProgressPrecise utc 1720000000000)"
    by (simp add: domContentLoaded_def initial_def setLanguage_def updateUI_def Let_def host_ops)
  have 2: "clipboardText (getYearProgressPrecise (localZone ?u) (clock ?u)) = Inr ?text"
    by (simp add: initial_raf_def clipboardText_values)
  from copy_reads_stored_record [where w = True and s = ?s and c = 0
      and progress = "getYearProgressPrecise utc 1720000000000" and clip = ?text
      and p = "7090993265747603 / 140737488355328" and u = ?u and clip' = ?text]
    1 2 clipboardText_values(2) percentage_values(1)
  show ?thesis
    by simp
qed

text \<open>
  Claim C3 says that start and stop are idempotent: two visible notifications in
  succession leave one armed continuous cadence and one armed discrete cadence. The
  script with the stored record guards its start with \<^verbatim>\<open>if (!updateTimer)\<close>
  (\<open>visible_twice\<close>); the script with the animation loop, the one with a continuous
  and a discrete cadence, has no such guard. On a page loaded while hidden (the timeout
  of the load animation has taken the timer id 1), two visible notifications in
  succession leave two animation frames requested and two intervals armed, the first of
  each no longer reachable through \<open>animationFrameId\<close> and \<open>staticTimerId\<close>; every
  call of the visible path arms one more of each (\<open>visible_raf_arms\<close>). The same double
  arming is reached by events alone when the page is hidden and shown again while an
  export awaits its image (\<open>export_and_visibility_arm_twice\<close>). Stopping twice is the
  same as stopping once in both scripts (\<open>hidden_twice\<close>, \<open>hidden_twice_raf\<close>).
\<close>

theorem visible_twice_arms_twice:
  "(let s0 = domContentLoaded_raf (initial_raf z t True);
        s1 = handleVisibilityChange_raf (s0\<lparr>hidden := False\<rparr>);
        s2 = handleVisibilityChange_raf s1
    in frames s0 = [] \<and> intervals s0 = []
       \<and> frames s1 = [1] \<and> intervals s1 = [(2, STATIC_UPDATE_INTERVAL)]
       \<and> frames s2 = [1, 2]
       \<and> intervals s2 = [(2, STATIC_UPDATE_INTERVAL), (3, STATIC_UPDATE_INTERVAL)]
       \<and> animationFrameId s2 = Some 2 \<and> staticTimerId s2 = Some 3)"
  by (simp add: domContentLoaded_raf_def handleVisibilityChange_raf_def initial_raf_def
      updateStaticElements_def Let_def host_ops)




text \<open>
  Claim C5. \<open>totalDaysInYear\<close> is 366 exactly when the instant's local year is
  divisible by 4 and not by 100, or divisible by 400, and 365 otherwise; it is 366 for
  the years 2024 and 2000, and 365 for 2023 and 1900.
\<close>

theorem totalDaysInYear_leap_rule:
  "totalDaysInYear (getYearProgressPrecise z now) =
     (if (4 dvd getFullYear z now \<and> \<not> 100 dvd getFullYear z now)
         \<or> 400 dvd getFullYear z now then 366 else 365)
   \<and> (getFullYear z now = 2024 \<longrightarrow> totalDaysInYear (getYearProgressPrecise z now) = 366)
   \<and> (getFullYear z now = 2000 \<longrightarrow> totalDaysInYear (getYearProgressPrecise z now) = 366)
   \<and> (getFullYear z now = 2023 \<longrightarrow> totalDaysInYear (getYearProgressPrecise z now) = 365)
   \<and> (getFullYear z now = 1900 \<longrightarrow> totalDaysInYear (getYearProgressPrecise z now) = 365)"
proof -
  have "totalDaysInYear (getYearProgressPrecise z now) =
      (if isLeap (getFullYear z now) then 366 else 365)"
    by (simp add: getYearProgressPrecise_def Let_def)
  moreover have "isLeap 2024" "isLeap 2000" "\<not> isLeap 2023" "\<not> isLeap 1900"
    by (simp_all add: isLeap_def)
  ultimately show ?thesis
    by (auto simp: isLeap_iff)
qed

theorem totalDaysInYear_leap_rule_witness:
  "getFullYear utc 1704067200000 = 2024
     \<and> totalDaysInYear (getYearProgressPrecise utc 1704067200000) = 366
   \<and> getFullYear utc 946684800000 = 2000
     \<and> totalDaysInYear (getYearProgressPrecise utc 946684800000) = 366
   \<and> getFullYear utc 1672531200000 = 2023
     \<and> totalDaysInYear (getYearProgressPrecise utc 1672531200000) = 365
   \<and> getFullYear utc (- 2208988800000) = 1900
     \<and> totalDaysInYear (getYearProgressPrecise utc (- 2208988800000)) = 365"
  using totalDaysInYear_leap_rule [of utc 1704067200000]
    totalDaysInYear_leap_rule [of utc 946684800000]
    totalDaysInYear_leap_rule [of utc 1672531200000]
    totalDaysInYear_leap_rule [of utc "- 2208988800000"]
  by (simp add: getFullYear_values)

text \<open>
  Claim C6 says that for every instant within the year, \<open>daysPassed + daysRemaining\<close>
  is \<open>totalDaysInYear - 1\<close> or \<open>totalDaysInYear\<close>. The sum is the number of whole
  days between the two boundaries the code builds, or one less, and the two boundaries
  need not be \<open>totalDaysInYear\<close> days apart. In Istanbul the first of January 2016 began
  at an offset of two hours and the first of January 2017 at an offset of three hours,
  so the year 2016 lasted 366 days less one hour: at 23:30 local time on the first of
  January 2016 the instant lies between the two boundaries, \<open>daysPassed\<close> is 0,
  \<open>daysRemaining\<close> is 364 and \<open>totalDaysInYear\<close> is 366. In the zone of offset 0 the
  two-digit rule of the Date constructor does the same for three years: for the year -1
  the year end is the start of 1900 and the sum is 694325 in a year of 365 days; for the
  year 0 the boundaries are those of 1900, which has 365 days against the 366 of the year
  0, and the sum is 364; for the year 99 the year start is that of 1999, the year end
  that of 100, and the sum is negative.
\<close>

theorem days_sum_counterexample:
  "(getFullYear istanbul 1451683800000 = 2016
     \<and> newDate istanbul 2016 = Some 1451599200000
     \<and> newDate istanbul (2016 + 1) = Some 1483218000000
     \<and> (1451599200000 :: int) \<le> 1451683800000 \<and> (1451683800000 :: int) < 1483218000000
     \<and> daysPassed (getYearProgressPrecise istanbul 1451683800000) = Some 0
     \<and> daysRemaining (getYearProgressPrecise istanbul 1451683800000) = Some 364
     \<and> totalDaysInYear (getYearProgressPrecise istanbul 1451683800000) = 366)
   \<and> (getFullYear utc (- 62198755199995) = - 1
     \<and> newDate utc (- 1) = Some (- 62198755200000)
     \<and> newDate utc (- 1 + 1) = Some (- 2208988800000)
     \<and> (- 62198755200000 :: int) \<le> - 62198755199995
     \<and> (- 62198755199995 :: int) < - 2208988800000
     \<and> daysPassed (getYearProgressPrecise utc (- 62198755199995)) = Some 0
     \<and> daysRemaining (getYearProgressPrecise utc (- 62198755199995)) = Some 694325
     \<and> totalDaysInYear (getYearProgressPrecise utc (- 62198755199995)) = 365)
   \<and> (getFullYear utc (- 62167219199995) = 0
     \<and> daysPassed (getYearProgressPrecise utc (- 62167219199995)) = Some (- 693961)
     \<and> daysRemaining (getYearProgressPrecise utc (- 62167219199995)) = Some 694325
     \<and> totalDaysInYear (getYearProgressPrecise utc (- 62167219199995)) = 366)
   \<and> (getFullYear utc (- 59042995199995) = 99
     \<and> daysPassed (getYearProgressPrecise utc (- 59042995199995)) = Some (- 693960)
     \<and> daysRemaining (getYearProgressPrecise utc (- 59042995199995)) = Some 364
     \<and> totalDaysInYear (getYearProgressPrecise utc (- 59042995199995)) = 365)"
  by (simp add: daysPassed_eq daysRemaining_eq totalDaysInYear_eq getFullYear_values
      newDate_values istanbul_values isLeap_iff msPerDay_def)

text \<open>
  Claim C6, as amended. For every instant whose two year boundaries are valid Dates,
  \<open>daysPassed + daysRemaining\<close> is the number of whole days between the two
  boundaries, or one less: the two floors are taken independently. When the local year
  is not -1, 0 or 99 and the host reads the two first of January with the same offset,
  the boundaries are exactly \<open>totalDaysInYear\<close> days apart, the sum is
  \<open>totalDaysInYear - 1\<close> or \<open>totalDaysInYear\<close>, and it is \<open>totalDaysInYear\<close>
  exactly when the time elapsed since the year start is a whole number of days. This
  covers the years 1 to 98, where both boundaries are moved by 1900 years, and every
  zone, whatever its offset does within the year.
\<close>

theorem days_passed_plus_remaining:
  assumes "newDate z (getFullYear z now) = Some s"
    and "newDate z (getFullYear z now + 1) = Some e"
  shows "\<exists>a b. daysPassed (getYearProgressPrecise z now) = Some a
     \<and> daysRemaining (getYearProgressPrecise z now) = Some b
     \<and> (a + b = (e - s) div msPerDay - 1 \<or> a + b = (e - s) div msPerDay)
     \<and> (getFullYear z now \<noteq> - 1 \<and> getFullYear z now \<noteq> 0 \<and> getFullYear z now \<noteq> 99
        \<and> localOffset z (TimeFromYear (MakeFullYear (getFullYear z now))) =
            localOffset z (TimeFromYear (MakeFullYear (getFullYear z now + 1)))
        \<longrightarrow> e - s = totalDaysInYear (getYearProgressPrecise z now) * msPerDay
          \<and> (a + b = totalDaysInYear (getYearProgressPrecise z now) - 1
             \<or> a + b = totalDaysInYear (getYearProgressPrecise z now))
          \<and> (a + b = totalDaysInYear (getYearProgressPrecise z now)
               \<longleftrightarrow> msPerDay dvd now - s))"
proof -
  note g = days_sum_general [OF assms]
  have "e - s = totalDaysInYear (getYearProgressPrecise z now) * msPerDay
      \<and> ((now - s) div msPerDay + (e - now) div msPerDay
            = totalDaysInYear (getYearProgressPrecise z now) - 1
         \<or> (now - s) div msPerDay + (e - now) div msPerDay
            = totalDaysInYear (getYearProgressPrecise z now))
      \<and> ((now - s) div msPerDay + (e - now) div msPerDay
            = totalDaysInYear (getYearProgressPrecise z now)
          \<longleftrightarrow> msPerDay dvd now - s)"
    if "getFullYear z now \<noteq> - 1" "getFullYear z now \<noteq> 0" "getFullYear z now \<noteq> 99"
      "localOffset z (TimeFromYear (MakeFullYear (getFullYear z now))) =
        localOffset z (TimeFromYear (MakeFullYear (getFullYear z now + 1)))"
    using days_sum [OF that(1-3) assms that(4)] by (simp split: if_splits)
  with g show ?thesis
    by blast
qed

theorem days_passed_plus_remaining_witness:
  "(newDate utc (getFullYear utc 1704067200000) = Some 1704067200000
     \<and> newDate utc (getFullYear utc 1704067200000 + 1) = Some 1735689600000
     \<and> getFullYear utc 1704067200000 = 2024
     \<and> localOffset utc (TimeFromYear (MakeFullYear (getFullYear utc 1704067200000))) =
         localOffset utc (TimeFromYear (MakeFullYear (getFullYear utc 1704067200000 + 1)))
     \<and> (\<exists>a b. daysPassed (getYearProgressPrecise utc 1704067200000) = Some a
        \<and> daysRemaining (getYearProgressPrecise utc 1704067200000) = Some b
        \<and> a + b = totalDaysInYear (getYearProgressPrecise utc 1704067200000)))
   \<and> (newDate utc (getFullYear utc 1704067200001) = Some 1704067200000
     \<and> newDate utc (getFullYear utc 1704067200001 + 1) = Some 1735689600000
     \<and> getFullYear utc 1704067200001 = 2024
     \<and> localOffset utc (TimeFromYear (MakeFullYear (getFullYear utc 1704067200001))) =
         localOffset utc (TimeFromYear (MakeFullYear (getFullYear utc 1704067200001 + 1)))
     \<and> (\<exists>a b. daysPassed (getYearProgressPrecise utc 1704067200001) = Some a
        \<and> daysRemaining (getYearProgressPrecise utc 1704067200001) = Some b
        \<and> a + b = totalDaysInYear (getYearProgressPrecise utc 1704067200001) - 1))
   \<and> (newDate istanbul (getFullYear istanbul 1451683800000) = Some 1451599200000
     \<and> newDate istanbul (getFullYear istanbul 1451683800000 + 1) = Some 1483218000000
     \<and> (1483218000000 - 1451599200000) div msPerDay = 365
     \<and> (\<exists>a b. daysPassed (getYearProgressPrecise istanbul 1451683800000) = Some a
        \<and> daysRemaining (getYearProgressPrecise istanbul 1451683800000) = Some b
        \<and> (a + b = 365 - 1 \<or> a + b = 365)))"
proof -
  have 1: "newDate utc (getFullYear utc 1704067200000) = Some 1704067200000"
    "newDate utc (getFullYear utc 1704067200000 + 1) = Some 1735689600000"
    "getFullYear utc 1704067200000 = 2024"
    by (simp_all add: getFullYear_values newDate_values)
  have 2: "newDate utc (getFullYear utc 1704067200001) = Some 1704067200000"
    "newDate utc (getFullYear utc 1704067200001 + 1) = Some 1735689600000"
    "getFullYear utc 1704067200001 = 2024"
    by (simp_all add: getFullYear_values newDate_values)
  have 3: "newDate istanbul (getFullYear istanbul 1451683800000) = Some 1451599200000"
    "newDate istanbul (getFullYear istanbul 1451683800000 + 1) = Some 1483218000000"
    "(1483218000000 - 1451599200000) div msPerDay = 365"
    by (simp_all add: istanbul_values msPerDay_def)
  have off: "localOffset utc t = localOffset utc t'" for t t'
    by (simp add: fixedZone_def)
  have "\<exists>a b. daysPassed (getYearProgressPrecise utc 1704067200000) = Some a
      \<and> daysRemaining (getYearProgressPrecise utc 1704067200000) = Some b
      \<and> (a + b = totalDaysInYear (getYearProgressPrecise utc 1704067200000)
           \<longleftrightarrow> msPerDay dvd 1704067200000 - 1704067200000)"
    using days_passed_plus_remaining [OF 1(1,2)] off 1(3) by fastforce
  then have a: "\<exists>a b. daysPassed (getYearProgressPrecise utc 1704067200000) = Some a
      \<and> daysRemaining (getYearProgressPrecise utc 1704067200000) = Some b
      \<and> a + b = totalDaysInYear (getYearProgressPrecise utc 1704067200000)"
    by simp
  have "\<exists>a b. daysPassed (getYearProgressPrecise utc 1704067200001) = Some a
      \<and> daysRemaining (getYearProgressPrecise utc 1704067200001) = Some b
      \<and> (a + b = totalDaysInYear (getYearProgressPrecise utc 1704067200001) - 1
         \<or> a + b = totalDaysInYear (getYearProgressPrecise utc 1704067200001))
      \<and> (a + b = totalDaysInYear (getYearProgressPrecise utc 1704067200001)
           \<longleftrightarrow> msPerDay dvd 1704067200001 - 1704067200000)"
    using days_passed_plus_remaining [OF 2(1,2)] off 2(3) by fastforce
  moreover have "\<not> msPerDay dvd 1704067200001 - 1704067200000"
    by (simp add: msPerDay_def)
  ultimately have b: "\<exists>a b. daysPassed (getYearProgressPrecise utc 1704067200001) = Some a
      \<and> daysRemaining (getYearProgressPrecise utc 1704067200001) = Some b
      \<and> a + b = totalDaysInYear (getYearProgressPrecise utc 1704067200001) - 1"
    by blast
  have c: "\<exists>a b. daysPassed (getYearProgressPrecise istanbul 1451683800000) = Some a
      \<and> daysRemaining (getYearProgressPrecise istanbul 1451683800000) = Some b
      \<and> (a + b = 365 - 1 \<or> a + b = 365)"
    using days_passed_plus_remaining [OF 3(1,2)] unfolding 3(3) by blast
  from 1 2 3 a b c off show ?thesis
    by blast
qed




text \<open>
  Claim C8 says that the one update a burst of triggers produces uses the state computed
  at the time of the last trigger. No record is computed when a trigger arrives: the
  deferred callback calls \<^verbatim>\<open>updateUI\<close>, which reads the clock when it runs, 200 ms
  after the last trigger. A single trigger 100 ms before the start of 2024 displays the
  record of the new year (366 days), not that of the instant of the trigger (365 days).
\<close>

theorem debounce_last_trigger_counterexample:
  "(let s = initial utc 1704067199900 False;
        s' = advance (1704067199900 + 200) (burst [1704067199900] s)
    in map totalDaysInYear (rendered s') = [366]
       \<and> totalDaysInYear (getYearProgressPrecise utc 1704067199900) = 365)"
  by (simp add: burst_def trigger_def advance_def fireTimeout_def updateUI_def
      debouncedUpdateUI_def initial_def Let_def host_ops DEBOUNCE_DELAY_def
      totalDaysInYear_eq getFullYear_values_newyear isLeap_iff)

text \<open>
  Claim C8, as amended. Each call of \<^verbatim>\<open>debouncedUpdateUI\<close> cancels the pending
  deferred timer before arming a new one, so at most one deferred update is pending at
  any time of a burst. Triggers arriving within one debounce window (200 ms), with no
  deferred update pending beforehand, produce exactly one UI update: none before
  200 ms have passed since the last trigger, and one at that moment, which displays the
  record computed at that moment, 200 ms after the last trigger.
\<close>

theorem debounce_coalesces:
  assumes "ts \<noteq> []" and "sorted ts" and "last ts - hd ts < DEBOUNCE_DELAY"
    and "timeouts s = []" and "nextTimer s \<noteq> 0" and "clock s \<le> hd ts"
  shows "(\<forall>k. length (timeouts (burst (take k ts) s)) \<le> 1)
    \<and> length (timeouts (burst ts s)) = 1
    \<and> rendered (burst ts s) = rendered s
    \<and> (\<forall>t. last ts \<le> t \<and> t < last ts + DEBOUNCE_DELAY \<longrightarrow>
          rendered (advance t (burst ts s)) = rendered s)
    \<and> (\<forall>t. last ts + DEBOUNCE_DELAY \<le> t \<longrightarrow>
          rendered (advance t (burst ts s)) =
            getYearProgressPrecise (localZone s) (last ts + DEBOUNCE_DELAY) # rendered s
          \<and> timeouts (advance t (burst ts s)) = [])
    \<and> (\<forall>s' h. debounceTimeout s' = Some h \<and> h \<noteq> 0 \<and> h \<noteq> nextTimer s' \<longrightarrow>
          h \<notin> fst ` set (timeouts (debouncedUpdateUI s')))"
proof -
  have w: "\<forall>x\<in>set ts. x < hd ts + DEBOUNCE_DELAY"
    using assms(1-3) by (rule window_bound)
  have q: "quiet s (hd ts)"
    using assms(4,5) by (simp add: quiet_def)
  from burst_pending [OF assms(1,2) w q assms(6)]
  obtain h where b: "timeouts (burst ts s) = [(h, last ts + DEBOUNCE_DELAY)]"
    "clock (burst ts s) = last ts" "rendered (burst ts s) = rendered s"
    "localZone (burst ts s) = localZone s"
    by blast
  have 1: "\<forall>k. length (timeouts (burst (take k ts) s)) \<le> 1"
    using burst_take_pending [OF assms] by simp
  have 2: "rendered (advance t (burst ts s)) = rendered s"
    if "last ts \<le> t" "t < last ts + DEBOUNCE_DELAY" for t
    using advance_not_due [OF b(1) that(2)] b(3) by simp
  have 3: "rendered (advance t (burst ts s)) =
      getYearProgressPrecise (localZone s) (last ts + DEBOUNCE_DELAY) # rendered s
      \<and> timeouts (advance t (burst ts s)) = []"
    if "last ts + DEBOUNCE_DELAY \<le> t" for t
    using advance_due [OF b(1) that] b(2-4)
    by (simp add: updateUI_def Let_def DEBOUNCE_DELAY_def max_def)
  from 1 2 3 b(1,3) debounced_cancels_pending show ?thesis
    by simp
qed

theorem debounce_coalesces_witness:
  "[1720000000000, 1720000000010, 1720000000020, 1720000000030, 1720000000040,
    1720000000050, 1720000000060, 1720000000070, 1720000000080, 1720000000090] \<noteq> ([] :: int list)
   \<and> sorted [1720000000000, 1720000000010, 1720000000020, 1720000000030, 1720000000040,
       1720000000050, 1720000000060, 1720000000070, 1720000000080, 1720000000090 :: int]
   \<and> last [1720000000000, 1720000000010, 1720000000020, 1720000000030, 1720000000040,
       1720000000050, 1720000000060, 1720000000070, 1720000000080, 1720000000090 :: int]
       - hd [1720000000000, 1720000000010, 1720000000020, 1720000000030, 1720000000040,
       1720000000050, 1720000000060, 1720000000070, 1720000000080, 1720000000090]
       < DEBOUNCE_DELAY
   \<and> timeouts (initial utc 1720000000000 False) = []
   \<and> nextTimer (initial utc 1720000000000 False) \<noteq> 0
   \<and> clock (initial utc 1720000000000 False) \<le> 1720000000000
   \<and> length (timeouts (burst [1720000000000, 1720000000010, 1720000000020, 1720000000030,
        1720000000040, 1720000000050, 1720000000060, 1720000000070, 1720000000080,
        1720000000090] (initial utc 1720000000000 False))) = 1
   \<and> rendered (advance 1720000000289 (burst [1720000000000, 1720000000010, 1720000000020,
        1720000000030, 1720000000040, 1720000000050, 1720000000060, 1720000000070,
        1720000000080, 1720000000090] (initial utc 1720000000000 False))) = []
   \<and> rendered (advance 1720000000290 (burst [1720000000000, 1720000000010, 1720000000020,
        1720000000030, 1720000000040, 1720000000050, 1720000000060, 1720000000070,
        1720000000080, 1720000000090] (initial utc 1720000000000 False)))
      = [getYearProgressPrecise utc 1720000000290]"
proof -
  let ?ts = "[1720000000000, 1720000000010, 1720000000020, 1720000000030, 1720000000040,
    1720000000050, 1720000000060, 1720000000070, 1720000000080, 1720000000090] :: int list"
  let ?s = "initial utc 1720000000000 False"
  have "?ts \<noteq> []" "sorted ?ts" "last ?ts - hd ?ts < DEBOUNCE_DELAY"
    "timeouts ?s = []" "nextTimer ?s \<noteq> 0" "clock ?s \<le> hd ?ts"
    by (simp_all add: DEBOUNCE_DELAY_def initial_def)
  from debounce_coalesces [OF this] show ?thesis
    by (simp add: DEBOUNCE_DELAY_def initial_def)
qed

text \<open>
  Claim C9 says that the clipboard text is a bar of exactly 15 block glyphs,
  \<open>round(percentage / (100 / 15))\<close> filled ones followed by the remaining empty ones,
  then a space, the percentage rounded to zero decimal places, and a percent sign. The
  claim names no condition on the percentage, and the stored percentage can be negative
  or NaN. On a page loaded at the first instant of the year 50 the stored percentage is
  negative, the count of filled glyphs is negative, \<^verbatim>\<open>repeat\<close> throws and nothing is
  written to the clipboard. On a page loaded at the earliest instant a Date can hold, the
  year start is not a valid Date, the stored percentage is NaN and the text is
  \<^verbatim>\<open> NaN%\<close>, with no glyph at all.
\<close>

theorem clipboard_text_counterexample:
  "(let s = domContentLoaded None ''en-US'' (initial utc (- 60589296000000) False)
    in copyListener s
       \<and> map_option percentage (currentProgressData s)
           = Some (Some (- 6532680558317063 / 34359738368))
       \<and> map_option clipboardText (currentProgressData s) = Some (Inl RangeError)
       \<and> clipboard (copyToClipboard True s) = None)
   \<and> (let s = domContentLoaded None ''en-US'' (initial utc (- 8640000000000000) False)
      in copyListener s
         \<and> map_option percentage (currentProgressData s) = Some None
         \<and> clipboard (copyToClipboard True s) = Some (map CH '' NaN%''))"
  by (simp add: domContentLoaded_def initial_def setLanguage_def updateUI_def Let_def host_ops
      copyToClipboard_def clipboardText_values clipboardText_NaN percentage_values
      percentage_NaN)

text \<open>
  Claim C9, as amended. For a stored percentage that is a number from 0 to 100, the
  clipboard text is a bar of exactly 15 block glyphs, \<open>round(percentage / (100 / 15))\<close>
  filled ones followed by the remaining empty ones, then a space, the percentage rounded
  to zero decimal places, and a percent sign. The two divisions are those of the script,
  each rounded to a double: for the stored percentage 56.666666666666664 of 26 July 2023,
  20:00 UTC, the quotient is the double 8.5 and nine glyphs are filled, where the exact
  quotient is below 8.5.
\<close>

theorem clipboard_text_format:
  assumes "currentProgressData s = Some progress"
    and "percentage progress = Some p" and "0 \<le> p" and "p \<le> 100"
  shows "\<exists>numFilled. numFilled = nat (roundHalfUp (fdiv p (fdiv 100 15))) \<and> numFilled \<le> 15
     \<and> length (replicate numFilled BLOCK_FILLED @ replicate (15 - numFilled) BLOCK_EMPTY) = 15
     \<and> clipboard (copyToClipboard True s) =
         Some (replicate numFilled BLOCK_FILLED @ replicate (15 - numFilled) BLOCK_EMPTY
               @ CH CHR '' '' # map CH (decimal (nat (roundHalfUp p))) @ [CH CHR ''%''])"
proof -
  have "nat (roundHalfUp (fdiv p (fdiv 100 15))) \<le> 15"
    using numFilled_bounds(2) [OF assms(3,4)] by simp
  then show ?thesis
    using clipboardText_in_range [OF assms(2-4)] assms(1)
    by (simp add: copyToClipboard_def)
qed

theorem clipboard_text_format_witness:
  "currentProgressData (domContentLoaded None ''en-US'' (initial utc 1690401600000 False))
     = Some (getYearProgressPrecise utc 1690401600000)
   \<and> percentage (getYearProgressPrecise utc 1690401600000)
      = Some (7975124340135253 / 140737488355328)
   \<and> (0::real) \<le> 7975124340135253 / 140737488355328
   \<and> (7975124340135253 / 140737488355328 :: real) \<le> 100
   \<and> fdiv (7975124340135253 / 140737488355328) (fdiv 100 15) = 17 / 2
   \<and> (7975124340135253 / 140737488355328) / (100 / 15) < (17 / 2 :: real)
   \<and> clipboard (copyToClipboard True (domContentLoaded None ''en-US'' (initial utc 1690401600000 False)))
     = Some (replicate 9 BLOCK_FILLED @ replicate 6 BLOCK_EMPTY @ map CH '' 57%'')"
proof -
  let ?s = "domContentLoaded None ''en-US'' (initial utc 1690401600000 False)"
  let ?p = "7975124340135253 / 140737488355328 :: real"
  have 1: "currentProgressData ?s = Some (getYearProgressPrecise utc 1690401600000)"
    by (simp add: domContentLoaded_def initial_def setLanguage_def updateUI_def Let_def host_ops)
  have 2: "fdiv ?p (fdiv 100 15) = 17 / 2"
    unfolding fdiv_100_15 by (simp add: fl_eval)
  have 3: "nat (roundHalfUp (17 / 2)) = 9"
    by (simp add: roundHalfUp_def)
  have 4: "decimal (nat (roundHalfUp ?p)) = ''57''"
    by (simp add: roundHalfUp_def decimal.simps digit_def)
  from clipboard_text_format [OF 1 percentage_values(2)] 1 2 3 4 percentage_values(2)
  show ?thesis
    by simp
qed

text \<open>
  Claim C10. Whenever the copy handler can run, a record has been stored: after any
  sequence of events from the freshly evaluated script, if the copy listener is attached
  then \<open>currentProgressData\<close> holds a record, so the guard's silent return is not
  taken. The listener is attached by \<^verbatim>\<open>DOMContentLoaded\<close>, whose handler has stored a
  record (through \<^verbatim>\<open>setLanguage\<close> and \<^verbatim>\<open>updateUI\<close>) by then. A stored percentage
  is always of type number (NaN included), so the guard can only fire on the initial
  empty object.
\<close>

theorem copy_guard_unreachable:
  "(copyListener (run (initial z t h) es)
      \<longrightarrow> (\<exists>progress. currentProgressData (run (initial z t h) es) = Some progress))
   \<and> copyListener (domContentLoaded savedLang browserLang s)
   \<and> (\<exists>progress. currentProgressData (domContentLoaded savedLang browserLang s) = Some progress)"
  using stored_run [OF stored_initial, of z t h es] stored_domContentLoaded [of savedLang browserLang s]
  by (auto simp: recordStored_def)

theorem copy_guard_unreachable_witness:
  "copyListener (run (initial utc 1720000000000 False) [DOMContentLoaded None ''en-US'', CopyClick True])
   \<and> (\<exists>progress. currentProgressData
         (run (initial utc 1720000000000 False) [DOMContentLoaded None ''en-US'', CopyClick True])
          = Some progress)"
proof -
  have "copyListener (run (initial utc 1720000000000 False) [DOMContentLoaded None ''en-US'', CopyClick True])"
    by (simp add: run_def initial_def domContentLoaded_def setLanguage_def updateUI_def Let_def
        copyToClipboard_def host_ops split: option.splits sum.splits)
  with copy_guard_unreachable [of utc 1720000000000 False "[DOMContentLoaded None ''en-US'', CopyClick True]"]
  show ?thesis
    by blast
qed

end
